theory Spec2Isabelle
  imports Main "HOL-Library.AList"
begin

section \<open>Documents, requests and messages\<close>

text \<open>
  A document of the index is its \<open>_source\<close>, flattened to field paths: the key
  \<open>''status''\<close> is the top-level field, \<open>''properties.item_id''\<close> the field
  \<open>item_id\<close> of the nested object \<open>properties\<close>. A hit of a search is the document.
  A \<open>Date\<close> counts microseconds since the epoch.
\<close>

datatype fval = Keyword string | Number int | Date int

type_synonym document = "(string \<times> fval) list"

text \<open>
  The query clauses the publisher builds: \<open>Term_q\<close> holds the keyword arguments of
  \<open>filter("term", ...)\<close> in the order written, \<open>Range_q f op b\<close> is
  \<open>filter("range", f={op: b})\<close> and \<open>Terms_q f vs\<close> is \<open>query("terms", f=vs)\<close>.
\<close>

datatype clause =
    Term_q "(string \<times> fval) list"
  | Range_q string string int
  | Terms_q string "fval list"

record search_request =
  req_index :: string
  req_filters :: "clause list"
  req_size :: "nat option"

record update_request =
  upd_index :: string
  upd_query :: "clause list"
  upd_script :: "(string \<times> fval) option"

record message =
  uri :: fval
  description_path :: fval

text \<open>A Python dict keeps insertion order: the candidate map is a list of its items.\<close>

type_synonym candidates = "(fval \<times> message) list"

text \<open>
  \<open>KeyError\<close> is Python's, raised by a subscript on a hit. \<open>QueryError\<close>,
  \<open>UpdateError\<close> and \<open>PublishError\<close> stand for whatever the search, the update
  by query and the producer raise.
\<close>

datatype error = KeyError string | QueryError | PublishError | UpdateError

datatype event =
    Searched search_request
  | Updated update_request
  | Opened
  | Published string message
  | Closed
  | Raised error

record config =
  ID_KEY :: string
  CUTOFF :: int
  ROUTING_KEY :: string
  INDEX :: string

text \<open>
  The world outside the publisher: the clock, the index with the page size it applies to a
  request that names none, the queue connection, and for each collaborator the outcomes
  of its coming calls (\<open>True\<close>: the call raises; an exhausted list: the call succeeds).
  \<open>trace\<close> records every call made to a collaborator, in order.

  Two behaviours of the index are fixed neither by the repository nor by its
  specification, and belong to the world: whether the index rejects a term clause that
  names more than one field (\<open>term_strict\<close>), and whether it reads the missing fraction of
  a second-precision bound as its maximum for the operators \<open>lte\<close> and \<open>gt\<close>
  (\<open>rounds_up\<close>, the rounding Elasticsearch documents for range queries on dates) or as
  zero.
\<close>

record world =
  now :: int
  docs :: "document list"
  page_default :: nat
  term_strict :: bool
  rounds_up :: bool
  es_faults :: "bool list"
  sink_faults :: "bool list"
  sink_open :: bool
  trace :: "event list"

definition emit :: "event \<Rightarrow> world \<Rightarrow> world" where
  "emit e w = w\<lparr>trace := trace w @ [e]\<rparr>"

definition new_events :: "world \<Rightarrow> world \<Rightarrow> event list" where
  "new_events w w' = drop (length (trace w)) (trace w')"

fun published :: "event list \<Rightarrow> (string \<times> message) list" where
  "published [] = []"
| "published (Published rk m # evs) = (rk, m) # published evs"
| "published (_ # evs) = published evs"

subsection \<open>The search index\<close>

text \<open>
  The index and its client (\<open>elasticsearch\<close>, \<open>elasticsearch_dsl\<close>) are collaborators
  outside the repository. They are modelled by what the publisher uses of them: a search
  that filters the documents of the index by the clauses of the request and returns one
  page of hits, and an update by query that applies one assignment to every matching
  document. Either request may raise.
\<close>

definition next_fault :: "bool list \<Rightarrow> bool" where
  "next_fault fs = (case fs of [] \<Rightarrow> False | f # _ \<Rightarrow> f)"

definition compare_op :: "string \<Rightarrow> (int \<Rightarrow> int \<Rightarrow> bool) option" where
  "compare_op operator =
     (if operator = ''lte'' then Some (\<lambda>t b. t \<le> b)
      else if operator = ''gt'' then Some (\<lambda>t b. b < t)
      else if operator = ''lt'' then Some (\<lambda>t b. t < b)
      else if operator = ''gte'' then Some (\<lambda>t b. b \<le> t)
      else None)"

text \<open>
  The instant, in microseconds, that the index compares a date with, given a bound of
  second precision: the first microsecond of that second, or, on an index that rounds up,
  its last for \<open>lte\<close> and \<open>gt\<close>.
\<close>

definition bound_instant :: "bool \<Rightarrow> string \<Rightarrow> int \<Rightarrow> int" where
  "bound_instant up operator b =
     (if up \<and> (operator = ''lte'' \<or> operator = ''gt'')
      then b * 1000000 + 999999 else b * 1000000)"

text \<open>
  A term clause tests one field for an exact value: an index that accepts a clause of
  several keywords reads the first as that field and gives the others no part in the
  matching. A range clause compares a date field with the instant of its bound. A terms
  clause tests one field for membership in the given values.
\<close>

fun clause_holds :: "bool \<Rightarrow> clause \<Rightarrow> document \<Rightarrow> bool" where
  "clause_holds up (Term_q kvs) d =
     (case kvs of [] \<Rightarrow> False | (k, v) # _ \<Rightarrow> map_of d k = Some v)"
| "clause_holds up (Range_q f operator b) d =
     (case map_of d f of
        Some (Date t) \<Rightarrow>
          (case compare_op operator of
             Some cmp \<Rightarrow> cmp t (bound_instant up operator b)
           | None \<Rightarrow> False)
      | _ \<Rightarrow> False)"
| "clause_holds up (Terms_q f vs) d =
     (case map_of d f of Some v \<Rightarrow> v \<in> set vs | None \<Rightarrow> False)"

text \<open>
  A request is rejected for a range operator the index does not know and, on a strict
  index, for a term clause that does not name exactly one field.
\<close>

fun well_formed :: "bool \<Rightarrow> clause \<Rightarrow> bool" where
  "well_formed strict (Range_q f operator b) = (compare_op operator \<noteq> None)"
| "well_formed strict (Term_q kvs) = (if strict then length kvs = 1 else True)"
| "well_formed strict (Terms_q f vs) = True"

definition matches :: "bool \<Rightarrow> clause list \<Rightarrow> document \<Rightarrow> bool" where
  "matches up cs d = list_all (\<lambda>c. clause_holds up c d) cs"

definition page_size :: "search_request \<Rightarrow> world \<Rightarrow> nat" where
  "page_size q w = (case req_size q of None \<Rightarrow> page_default w | Some n \<Rightarrow> n)"

text \<open>
  \<open>Search.execute()\<close>: one request; the hits are the first page of the matching
  documents. A failing request raises and returns no hits.
\<close>

definition execute :: "search_request \<Rightarrow> world \<Rightarrow> (error + document list) \<times> world" where
  "execute q w =
     (let w1 = w\<lparr>es_faults := tl (es_faults w)\<rparr> in
      if next_fault (es_faults w) \<or> \<not> list_all (well_formed (term_strict w)) (req_filters q)
      then (Inl QueryError, emit (Raised QueryError) w1)
      else (Inr (take (page_size q w)
                  (filter (matches (rounds_up w) (req_filters q)) (docs w))),
            emit (Searched q) w1))"

text \<open>
  \<open>UpdateByQuery.execute()\<close>: one request; the script's assignment is applied to every
  document that matches the query, and to no other.
\<close>

definition apply_update :: "bool \<Rightarrow> update_request \<Rightarrow> document \<Rightarrow> document" where
  "apply_update up u d =
     (if matches up (upd_query u) d
      then (case upd_script u of None \<Rightarrow> d | Some (f, v) \<Rightarrow> AList.update f v d)
      else d)"

definition execute_update :: "update_request \<Rightarrow> world \<Rightarrow> (error + unit) \<times> world" where
  "execute_update u w =
     (let w1 = w\<lparr>es_faults := tl (es_faults w)\<rparr> in
      if next_fault (es_faults w) \<or> \<not> list_all (well_formed (term_strict w)) (upd_query u)
      then (Inl UpdateError, emit (Raised UpdateError) w1)
      else (Inr (),
            emit (Updated u) (w1\<lparr>docs := map (apply_update (rounds_up w) u) (docs w)\<rparr>)))"

subsection \<open>The queue producer\<close>

text \<open>
  Modelled from the spec: the class \<open>RabbitProducer\<close> of \<open>stac_publisher.rabbit\<close> is not
  among the sources. The sink has an open/close lifecycle; entering the \<open>with\<close> block
  opens the connection and raises when the sink is unreachable.
\<close>

definition producer_enter :: "world \<Rightarrow> (error + unit) \<times> world" where
  "producer_enter w =
     (let w1 = w\<lparr>sink_faults := tl (sink_faults w)\<rparr> in
      if next_fault (sink_faults w)
      then (Inl PublishError, emit (Raised PublishError) w1)
      else (Inr (), emit Opened (w1\<lparr>sink_open := True\<rparr>)))"

text \<open>
  Modelled from the spec: \<open>publish(routing_key, payload)\<close> appends the payload to the
  queue under the routing key, returns nothing on success and raises on a transport or
  channel failure.
\<close>

definition producer_publish :: "string \<Rightarrow> message \<Rightarrow> world \<Rightarrow> (error + unit) \<times> world" where
  "producer_publish routing_key m w =
     (let w1 = w\<lparr>sink_faults := tl (sink_faults w)\<rparr> in
      if next_fault (sink_faults w)
      then (Inl PublishError, emit (Raised PublishError) w1)
      else (Inr (), emit (Published routing_key m) w1))"

text \<open>
  Modelled from the spec: leaving the \<open>with\<close> block closes the connection on every exit
  path and suppresses no error.
\<close>

definition producer_exit :: "world \<Rightarrow> world" where
  "producer_exit w = emit Closed (w\<lparr>sink_open := False\<rparr>)"

section \<open>The publisher\<close>

text \<open>
  A \<open>datetime\<close> is its count of microseconds since the epoch. The format
  \<open>"%Y-%m-%dT%H:%M:%S"\<close> prints the fields down to the second and drops the
  microseconds; the printed timestamp is represented by the number of whole seconds it
  denotes.
\<close>

definition strftime :: "int \<Rightarrow> int" where
  "strftime t = t div 1000000"

definition timedelta :: "int \<Rightarrow> int" where
  "timedelta minutes = minutes * 60000000"

definition Search :: "string \<Rightarrow> search_request" where
  "Search idx = \<lparr>req_index = idx, req_filters = [], req_size = None\<rparr>"

definition filter_q :: "clause \<Rightarrow> search_request \<Rightarrow> search_request" where
  "filter_q c q = q\<lparr>req_filters := req_filters q @ [c]\<rparr>"

definition UpdateByQuery :: "string \<Rightarrow> update_request" where
  "UpdateByQuery idx = \<lparr>upd_index = idx, upd_query = [], upd_script = None\<rparr>"

definition query_q :: "clause \<Rightarrow> update_request \<Rightarrow> update_request" where
  "query_q c u = u\<lparr>upd_query := upd_query u @ [c]\<rparr>"

definition script_q :: "string \<Rightarrow> fval \<Rightarrow> update_request \<Rightarrow> update_request" where
  "script_q f v u = u\<lparr>upd_script := Some (f, v)\<rparr>"

text \<open>\<open>self.search\<close> and \<open>self.update\<close>, as \<open>__init__\<close> builds them.\<close>

definition search :: "config \<Rightarrow> search_request" where
  "search conf =
     filter_q (Term_q [(''status'', Keyword ''new''), (''size'', Number 10000)])
       (Search (INDEX conf))"

definition update :: "config \<Rightarrow> update_request" where
  "update conf = UpdateByQuery (INDEX conf)"

definition selector_query :: "config \<Rightarrow> string \<Rightarrow> int \<Rightarrow> search_request" where
  "selector_query conf operator cutoff =
     filter_q (Range_q ''mod_time'' operator (strftime cutoff)) (search conf)"

text \<open>
  The loop of \<open>get_messages\<close> over the hits. A subscript on a hit raises \<open>KeyError\<close>
  when the hit has no such key; \<open>hit["description_path"]\<close> is evaluated only for an
  identifier that is not yet in the dict.
\<close>

fun get_messages_loop :: "config \<Rightarrow> document list \<Rightarrow> candidates \<Rightarrow> error + candidates" where
  "get_messages_loop conf [] messages = Inr messages"
| "get_messages_loop conf (hit # hits) messages =
     (case map_of hit (ID_KEY conf) of
        None \<Rightarrow> Inl (KeyError (ID_KEY conf))
      | Some sur_id \<Rightarrow>
          if sur_id \<notin> set (map fst messages)
          then (case map_of hit ''description_path'' of
                  None \<Rightarrow> Inl (KeyError ''description_path'')
                | Some p \<Rightarrow>
                    get_messages_loop conf hits
                      (messages @ [(sur_id, \<lparr>uri = sur_id, description_path = p\<rparr>)]))
          else get_messages_loop conf hits messages)"

definition get_messages :: "config \<Rightarrow> string \<Rightarrow> int \<Rightarrow> world \<Rightarrow> (error + candidates) \<times> world" where
  "get_messages conf operator cutoff w =
     (case execute (selector_query conf operator cutoff) w of
        (Inl e, w1) \<Rightarrow> (Inl e, w1)
      | (Inr hits, w1) \<Rightarrow> (get_messages_loop conf hits [], w1))"

definition filter_messages :: "candidates \<Rightarrow> candidates \<Rightarrow> message list" where
  "filter_messages old_messages young_messages =
     [old_message \<leftarrow> map snd old_messages. uri old_message \<notin> set (map fst young_messages)]"

fun publish_loop :: "string \<Rightarrow> message list \<Rightarrow> world \<Rightarrow> (error + unit) \<times> world" where
  "publish_loop routing_key [] w = (Inr (), w)"
| "publish_loop routing_key (m # ms) w =
     (case producer_publish routing_key m w of
        (Inl e, w1) \<Rightarrow> (Inl e, w1)
      | (Inr _, w1) \<Rightarrow> publish_loop routing_key ms w1)"

definition publish_messages :: "config \<Rightarrow> message list \<Rightarrow> world \<Rightarrow> (error + unit) \<times> world" where
  "publish_messages conf messages w =
     (case producer_enter w of
        (Inl e, w1) \<Rightarrow> (Inl e, w1)
      | (Inr _, w1) \<Rightarrow>
          (case publish_loop (ROUTING_KEY conf) messages w1 of
             (r, w2) \<Rightarrow> (r, producer_exit w2)))"

definition update_query :: "config \<Rightarrow> fval list \<Rightarrow> update_request" where
  "update_query conf ids =
     script_q ''status'' (Keyword ''queued'')
       (query_q (Terms_q (''properties.'' @ ID_KEY conf) ids) (update conf))"

definition update_subs :: "config \<Rightarrow> message list \<Rightarrow> world \<Rightarrow> (error + unit) \<times> world" where
  "update_subs conf messages w =
     (let ids = map uri messages in execute_update (update_query conf ids) w)"

definition run :: "config \<Rightarrow> world \<Rightarrow> (error + unit) \<times> world" where
  "run conf w =
     (let cutoff = now w - timedelta (CUTOFF conf) in
      case get_messages conf ''lte'' cutoff w of
        (Inl e, w1) \<Rightarrow> (Inl e, w1)
      | (Inr old_messages, w1) \<Rightarrow>
          (case get_messages conf ''gt'' cutoff w1 of
             (Inl e, w2) \<Rightarrow> (Inl e, w2)
           | (Inr young_messages, w2) \<Rightarrow>
               (let messages = filter_messages old_messages young_messages in
                case publish_messages conf messages w2 of
                  (Inl e, w3) \<Rightarrow> (Inl e, w3)
                | (Inr _, w3) \<Rightarrow> update_subs conf messages w3)))"

section \<open>Candidate maps and the inputs of the examples\<close>

text \<open>
  What a dict built by the selector satisfies: no identifier twice, and every message
  filed under its own \<open>uri\<close>.
\<close>

definition keyed :: "candidates \<Rightarrow> bool" where
  "keyed cs = (distinct (map fst cs) \<and> list_all (\<lambda>(k, m). uri m = k) cs)"

text \<open>
  The scenario of the specification: two new documents, modified ten minutes and one
  minute before \<open>T\<close>, and a cutoff age of five minutes. A document has the fields of
  the specification's data model: its identifier under \<open>ID_KEY\<close>, its payload reference
  under \<open>description_path\<close>, its status and its modification time. The index accepts
  the selector's term clause.
\<close>

definition scenario_conf :: config where
  "scenario_conf = \<lparr>ID_KEY = ''id'', CUTOFF = 5, ROUTING_KEY = ''stac'', INDEX = ''assets''\<rparr>"

definition scenario_doc :: "string \<Rightarrow> fval \<Rightarrow> int \<Rightarrow> document" where
  "scenario_doc i p t =
     [(''id'', Keyword i), (''description_path'', p), (''status'', Keyword ''new''),
      (''mod_time'', Date t)]"

definition scenario :: "int \<Rightarrow> fval \<Rightarrow> fval \<Rightarrow> world" where
  "scenario T pa pb =
     \<lparr>now = T,
      docs = [scenario_doc ''a'' pa (T - 600000000), scenario_doc ''b'' pb (T - 60000000)],
      page_default = 10, term_strict = False, rounds_up = False,
      es_faults = [], sink_faults = [], sink_open = False, trace = []\<rparr>"

definition message_a :: "fval \<Rightarrow> message" where
  "message_a pa = \<lparr>uri = Keyword ''a'', description_path = pa\<rparr>"

text \<open>The first hit of a result list that carries a given identifier.\<close>

definition first_hit :: "config \<Rightarrow> document list \<Rightarrow> fval \<Rightarrow> document option" where
  "first_hit conf hits k = find (\<lambda>hit. map_of hit (ID_KEY conf) = Some k) hits"

text \<open>An index whose two new documents carry the same identifier.\<close>

definition duplicates :: world where
  "duplicates =
     \<lparr>now = 0,
      docs = [[(''id'', Keyword ''a''), (''description_path'', Keyword ''p1''),
               (''status'', Keyword ''new''), (''mod_time'', Date 0)],
              [(''id'', Keyword ''a''), (''description_path'', Keyword ''p2''),
               (''status'', Keyword ''new''), (''mod_time'', Date 1)]],
      page_default = 10, term_strict = False, rounds_up = False,
      es_faults = [], sink_faults = [], sink_open = False, trace = []\<rparr>"

text \<open>
  An index in which the identifier read by the selector and the field matched by the
  reconciler disagree: the first document has no \<open>properties.id\<close>, the second has the
  identifier \<open>z\<close> and the \<open>properties.id\<close> \<open>a\<close>.
\<close>

definition disagreeing :: world where
  "disagreeing =
     \<lparr>now = 0,
      docs = [[(''id'', Keyword ''a''), (''description_path'', Keyword ''p''),
               (''status'', Keyword ''new''), (''mod_time'', Date 0)],
              [(''id'', Keyword ''z''), (''properties.id'', Keyword ''a''),
               (''description_path'', Keyword ''q''), (''status'', Keyword ''new''),
               (''mod_time'', Date 0)]],
      page_default = 10, term_strict = False, rounds_up = False,
      es_faults = [], sink_faults = [], sink_open = False, trace = []\<rparr>"

text \<open>
  The scenario at \<open>T = 0\<close> with failures injected: \<open>esf\<close> for the requests to the index,
  \<open>skf\<close> for the calls to the producer.
\<close>

definition faulty :: "bool list \<Rightarrow> bool list \<Rightarrow> world" where
  "faulty esf skf = (scenario 0 (Keyword ''p'') (Keyword ''q''))\<lparr>es_faults := esf, sink_faults := skf\<rparr>"

text \<open>
  An index of eleven new documents with distinct identifiers, all modified at the epoch,
  which applies a page of ten hits to a request that names no size.
\<close>

definition crowded :: world where
  "crowded =
     \<lparr>now = 0,
      docs = map (\<lambda>i. [(''id'', Number i), (''properties.id'', Number i),
                        (''description_path'', Keyword ''p''), (''status'', Keyword ''new''),
                        (''mod_time'', Date 0)]) [0, 1, 2, 3, 4, 5, 6, 7, 8, 9, 10],
      page_default = 10, term_strict = False, rounds_up = False,
      es_faults = [], sink_faults = [], sink_open = False, trace = []\<rparr>"

text \<open>
  An index read at a cutoff of 1.5 seconds after the epoch: document \<open>e\<close> was
  modified at 1.0 seconds, document \<open>f\<close> at 1.2 seconds.
\<close>

definition subsecond :: world where
  "subsecond =
     \<lparr>now = 301500000,
      docs = [scenario_doc ''e'' (Keyword ''p'') 1000000,
              scenario_doc ''f'' (Keyword ''q'') 1200000],
      page_default = 10, term_strict = False, rounds_up = False,
      es_faults = [], sink_faults = [], sink_open = False, trace = []\<rparr>"

text \<open>
  An index in which the identifier \<open>a\<close> has one document older than the cutoff and one
  younger, and the identifier \<open>c\<close> one older document.
\<close>

definition drifting :: world where
  "drifting =
     \<lparr>now = 0,
      docs = [scenario_doc ''a'' (Keyword ''p'') (- 600000000),
              scenario_doc ''a'' (Keyword ''q'') (- 60000000),
              scenario_doc ''c'' (Keyword ''r'') (- 600000000)],
      page_default = 10, term_strict = False, rounds_up = False,
      es_faults = [], sink_faults = [], sink_open = False, trace = []\<rparr>"

section \<open>Properties of the steps\<close>

subsection \<open>What a call adds to the trace\<close>

lemma published_append: "published (xs @ ys) = published xs @ published ys"
  by (induction xs rule: published.induct) auto

lemma execute_trace:
  "execute q w = (r, w') \<Longrightarrow>
     trace w' = trace w @ [case r of Inl e \<Rightarrow> Raised e | Inr _ \<Rightarrow> Searched q]"
  by (auto simp: execute_def emit_def Let_def split: if_splits)

lemma execute_error: "execute q w = (Inl e, w') \<Longrightarrow> e = QueryError"
  by (auto simp: execute_def Let_def split: if_splits)

lemma producer_publish_trace:
  "producer_publish rk m w = (r, w') \<Longrightarrow>
     trace w' = trace w @ [case r of Inl e \<Rightarrow> Raised e | Inr _ \<Rightarrow> Published rk m]"
  by (auto simp: producer_publish_def emit_def Let_def split: if_splits)

lemma publish_loop_trace:
  "publish_loop rk ms w = (r, w') \<Longrightarrow>
     \<exists>k \<le> length ms. trace w' = trace w @ map (Published rk) (take k ms) @
        (case r of Inl e \<Rightarrow> [Raised e] | Inr _ \<Rightarrow> []) \<and> (r = Inr () \<longrightarrow> k = length ms)"
proof (induction ms arbitrary: w)
  case Nil
  then show ?case by auto
next
  case (Cons m ms)
  obtain r1 w1 where p: "producer_publish rk m w = (r1, w1)" by (cases "producer_publish rk m w")
  show ?case
  proof (cases r1)
    case (Inl e)
    with Cons.prems p have "r = Inl e" "w' = w1" by auto
    with producer_publish_trace[OF p] Inl show ?thesis
      by (intro exI[of _ 0]) auto
  next
    case (Inr u)
    with Cons.prems p have "publish_loop rk ms w1 = (r, w')" by auto
    from Cons.IH[OF this] obtain k where k: "k \<le> length ms"
      "trace w' = trace w1 @ map (Published rk) (take k ms) @
        (case r of Inl e \<Rightarrow> [Raised e] | Inr _ \<Rightarrow> [])" "r = Inr () \<longrightarrow> k = length ms"
      by blast
    with producer_publish_trace[OF p] Inr show ?thesis
      by (intro exI[of _ "Suc k"]) auto
  qed
qed

subsection \<open>The drift filter\<close>

lemma set_filter_messages:
  "set (filter_messages old young) = {m \<in> snd ` set old. uri m \<notin> fst ` set young}"
  by (auto simp: filter_messages_def)

lemma uri_filter_messages:
  "list_all (\<lambda>(k, m). uri m = k) old \<Longrightarrow>
   map uri (filter_messages old young) = [k \<leftarrow> map fst old. k \<notin> set (map fst young)]"
  by (induction old) (force simp: filter_messages_def)+

lemma drift:
  assumes "keyed old" "fst ` set old = A \<union> C" "fst ` set young = B \<union> C"
    "A \<inter> B = {}" "A \<inter> C = {}"
  shows "uri ` set (filter_messages old young) = A \<and> distinct (map uri (filter_messages old young))"
proof -
  have "set (map uri (filter_messages old young)) = (A \<union> C) - (B \<union> C)"
    using assms(1,2,3) by (auto simp: uri_filter_messages keyed_def)
  moreover have "distinct (map uri (filter_messages old young))"
    using assms(1) by (simp add: uri_filter_messages keyed_def)
  ultimately show ?thesis using assms(4,5) by auto
qed

subsection \<open>What each step of a cycle adds to the trace\<close>

lemma publish_messages_trace:
  assumes "publish_messages conf ms w = (r, w')"
  shows "(r = Inl PublishError \<and> trace w' = trace w @ [Raised PublishError]) \<or>
     (\<exists>k \<le> length ms. trace w' = trace w @ [Opened] @ map (Published (ROUTING_KEY conf)) (take k ms) @
        (case r of Inl e \<Rightarrow> [Raised e] | Inr _ \<Rightarrow> []) @ [Closed] \<and> (r = Inr () \<longrightarrow> k = length ms))"
proof -
  obtain r1 w1 where e: "producer_enter w = (r1, w1)" by (cases "producer_enter w")
  show ?thesis
  proof (cases r1)
    case (Inl err)
    with e assms have "r = Inl err" "w' = w1" by (auto simp: publish_messages_def)
    with e Inl show ?thesis
      by (auto simp: producer_enter_def emit_def Let_def split: if_splits)
  next
    case (Inr u)
    obtain r2 w2 where l: "publish_loop (ROUTING_KEY conf) ms w1 = (r2, w2)"
      by (cases "publish_loop (ROUTING_KEY conf) ms w1")
    with e Inr assms have rw: "r = r2" "w' = producer_exit w2"
      by (auto simp: publish_messages_def)
    from e Inr have t1: "trace w1 = trace w @ [Opened]"
      by (auto simp: producer_enter_def emit_def Let_def split: if_splits)
    from publish_loop_trace[OF l] obtain k where k: "k \<le> length ms"
      "trace w2 = trace w1 @ map (Published (ROUTING_KEY conf)) (take k ms) @
        (case r2 of Inl e \<Rightarrow> [Raised e] | Inr _ \<Rightarrow> [])" "r2 = Inr () \<longrightarrow> k = length ms"
      by blast
    with t1 rw have "k \<le> length ms \<and> trace w' = trace w @ [Opened] @ map (Published (ROUTING_KEY conf)) (take k ms) @
        (case r of Inl e \<Rightarrow> [Raised e] | Inr _ \<Rightarrow> []) @ [Closed] \<and> (r = Inr () \<longrightarrow> k = length ms)"
      by (simp add: producer_exit_def emit_def)
    then show ?thesis by blast
  qed
qed

lemma get_messages_loop_error:
  "get_messages_loop conf hits acc = Inl e \<Longrightarrow> \<exists>k. e = KeyError k"
  by (induction hits arbitrary: acc) (auto split: option.splits if_splits)

lemma get_messages_cases:
  assumes "get_messages conf operator cutoff w = (r, w')"
  shows "(r = Inl QueryError \<and> trace w' = trace w @ [Raised QueryError]) \<or>
     (trace w' = trace w @ [Searched (selector_query conf operator cutoff)] \<and>
      (\<forall>e. r = Inl e \<longrightarrow> (\<exists>k. e = KeyError k)))"
proof -
  obtain r1 w1 where e: "execute (selector_query conf operator cutoff) w = (r1, w1)"
    by (cases "execute (selector_query conf operator cutoff) w")
  show ?thesis
  proof (cases r1)
    case (Inl err)
    with e assms have "r = Inl err" "w' = w1" by (auto simp: get_messages_def)
    with execute_trace[OF e] execute_error[of _ w err w1] e Inl show ?thesis by auto
  next
    case (Inr hits)
    with e assms have "w' = w1" "r = get_messages_loop conf hits []"
      by (auto simp: get_messages_def)
    with execute_trace[OF e] Inr show ?thesis by (auto dest: get_messages_loop_error)
  qed
qed

lemma update_subs_cases:
  assumes "update_subs conf ms w = (r, w')"
  shows "(r = Inl UpdateError \<and> trace w' = trace w @ [Raised UpdateError] \<and> docs w' = docs w) \<or>
     (r = Inr () \<and> trace w' = trace w @ [Updated (update_query conf (map uri ms))] \<and>
      docs w' = map (apply_update (rounds_up w) (update_query conf (map uri ms))) (docs w))"
  using assms
  by (auto simp: update_subs_def execute_update_def emit_def Let_def split: if_splits)

lemma publish_loop_error:
  "publish_loop rk ms w = (Inl e, w') \<Longrightarrow> e = PublishError"
  by (induction ms arbitrary: w)
     (auto simp: producer_publish_def Let_def split: prod.splits sum.splits if_splits)

lemma publish_messages_error:
  "publish_messages conf ms w = (Inl e, w') \<Longrightarrow> e = PublishError"
  by (auto simp: publish_messages_def producer_enter_def Let_def
      split: prod.splits sum.splits if_splits dest: publish_loop_error)

subsection \<open>The calls of one cycle\<close>

lemma new_events_append: "trace w' = trace w @ evs \<Longrightarrow> new_events w w' = evs"
  by (simp add: new_events_def)

lemma run_selected:
  assumes gm1: "get_messages conf ''lte'' (now w - timedelta (CUTOFF conf)) w = (Inr old, w1)"
    and gm2: "get_messages conf ''gt'' (now w - timedelta (CUTOFF conf)) w1 = (Inr young, w2)"
    and run: "run conf w = (r, w')"
  shows "\<exists>tail. new_events w w' =
        [Searched (selector_query conf ''lte'' (now w - timedelta (CUTOFF conf))),
         Searched (selector_query conf ''gt'' (now w - timedelta (CUTOFF conf)))] @ tail \<and>
     ((r = Inl PublishError \<and> tail = [Raised PublishError]) \<or>
      (\<exists>k \<le> length (filter_messages old young). r = Inl PublishError \<and>
         tail = Opened # map (Published (ROUTING_KEY conf)) (take k (filter_messages old young))
                @ [Raised PublishError, Closed]) \<or>
      (r = Inl UpdateError \<and>
         tail = Opened # map (Published (ROUTING_KEY conf)) (filter_messages old young)
                @ [Closed, Raised UpdateError]) \<or>
      (r = Inr () \<and>
         tail = Opened # map (Published (ROUTING_KEY conf)) (filter_messages old young)
                @ [Closed, Updated (update_query conf (map uri (filter_messages old young)))]))"
proof -
  let ?ms = "filter_messages old young"
  let ?q1 = "Searched (selector_query conf ''lte'' (now w - timedelta (CUTOFF conf)))"
  let ?q2 = "Searched (selector_query conf ''gt'' (now w - timedelta (CUTOFF conf)))"
  from get_messages_cases[OF gm1] have t1: "trace w1 = trace w @ [?q1]" by auto
  from get_messages_cases[OF gm2] have t2: "trace w2 = trace w1 @ [?q2]" by auto
  obtain r3 w3 where p: "publish_messages conf ?ms w2 = (r3, w3)"
    by (cases "publish_messages conf ?ms w2")
  show ?thesis
  proof (cases r3)
    case (Inl e)
    with p publish_messages_error have e: "e = PublishError" by blast
    from Inl p gm1 gm2 run have rw: "r = Inl PublishError" "w' = w3"
      by (auto simp: run_def Let_def e)
    from publish_messages_trace[OF p] Inl t1 t2 rw show ?thesis
      by (auto simp: new_events_def e)
  next
    case (Inr u)
    with p gm1 gm2 run have u: "update_subs conf ?ms w3 = (r, w')"
      by (auto simp: run_def Let_def)
    from publish_messages_trace[OF p] Inr
    have t3: "trace w3 = trace w2 @ [Opened] @ map (Published (ROUTING_KEY conf)) ?ms @ [Closed]"
      by auto
    from update_subs_cases[OF u] t1 t2 t3 show ?thesis
      by (auto simp: new_events_def)
  qed
qed

lemma run_not_selected:
  assumes run: "run conf w = (r, w')"
    and no: "\<not> (\<exists>old w1 young w2.
        get_messages conf ''lte'' (now w - timedelta (CUTOFF conf)) w = (Inr old, w1) \<and>
        get_messages conf ''gt'' (now w - timedelta (CUTOFF conf)) w1 = (Inr young, w2))"
  shows "(r = Inl QueryError \<and> new_events w w' = [Raised QueryError]) \<or>
     (\<exists>k. r = Inl (KeyError k) \<and> new_events w w' =
        [Searched (selector_query conf ''lte'' (now w - timedelta (CUTOFF conf)))]) \<or>
     (r = Inl QueryError \<and> new_events w w' =
        [Searched (selector_query conf ''lte'' (now w - timedelta (CUTOFF conf))),
         Raised QueryError]) \<or>
     (\<exists>k. r = Inl (KeyError k) \<and> new_events w w' =
        [Searched (selector_query conf ''lte'' (now w - timedelta (CUTOFF conf))),
         Searched (selector_query conf ''gt'' (now w - timedelta (CUTOFF conf)))])"
proof -
  let ?c = "now w - timedelta (CUTOFF conf)"
  obtain r1 w1 where g1: "get_messages conf ''lte'' ?c w = (r1, w1)"
    by (cases "get_messages conf ''lte'' ?c w")
  show ?thesis
  proof (cases r1)
    case (Inl e)
    with g1 run have "r = Inl e" "w' = w1" by (auto simp: run_def Let_def)
    with get_messages_cases[OF g1] Inl show ?thesis by (auto simp: new_events_def)
  next
    case (Inr old)
    obtain r2 w2 where g2: "get_messages conf ''gt'' ?c w1 = (r2, w2)"
      by (cases "get_messages conf ''gt'' ?c w1")
    from get_messages_cases[OF g1] Inr
    have t1: "trace w1 = trace w @ [Searched (selector_query conf ''lte'' ?c)]" by auto
    show ?thesis
    proof (cases r2)
      case (Inl e)
      with g1 g2 Inr run have "r = Inl e" "w' = w2" by (auto simp: run_def Let_def)
      with get_messages_cases[OF g2] Inl t1 show ?thesis by (auto simp: new_events_def)
    next
      case (Inr young)
      with g1 g2 \<open>r1 = Inr old\<close> no show ?thesis by blast
    qed
  qed
qed

subsection \<open>The scenario, evaluated\<close>

lemma second_floor: "(t::int) - 1000000 < t div 1000000 * 1000000 \<and> t div 1000000 * 1000000 \<le> t"
proof -
  have "t = t div 1000000 * 1000000 + t mod 1000000" by simp
  moreover have "0 \<le> t mod 1000000" "t mod 1000000 < 1000000" by simp_all
  ultimately show ?thesis by linarith
qed

lemma scenario_old:
  "get_messages scenario_conf ''lte'' (T - 300000000) (scenario T pa pb) =
     (Inr [(Keyword ''a'', \<lparr>uri = Keyword ''a'', description_path = pa\<rparr>)],
      emit (Searched (selector_query scenario_conf ''lte'' (T - 300000000))) (scenario T pa pb))"
proof -
  have a: "T - 600000000 \<le> (T - 300000000) div 1000000 * 1000000"
    using second_floor[of "T - 300000000"] by linarith
  have b: "\<not> T - 60000000 \<le> (T - 300000000) div 1000000 * 1000000"
    using second_floor[of "T - 300000000"] by linarith
  show ?thesis
    by (simp add: get_messages_def execute_def selector_query_def search_def Search_def
        filter_q_def next_fault_def matches_def page_size_def compare_op_def bound_instant_def strftime_def
        scenario_def scenario_conf_def scenario_doc_def emit_def Let_def a b)
qed

lemma scenario_young:
  "get_messages scenario_conf ''gt'' (T - 300000000)
     (emit (Searched (selector_query scenario_conf ''lte'' (T - 300000000))) (scenario T pa pb)) =
     (Inr [(Keyword ''b'', \<lparr>uri = Keyword ''b'', description_path = pb\<rparr>)],
      emit (Searched (selector_query scenario_conf ''gt'' (T - 300000000)))
        (emit (Searched (selector_query scenario_conf ''lte'' (T - 300000000))) (scenario T pa pb)))"
proof -
  have a: "\<not> (T - 300000000) div 1000000 * 1000000 < T - 600000000"
    using second_floor[of "T - 300000000"] by linarith
  have b: "(T - 300000000) div 1000000 * 1000000 < T - 60000000"
    using second_floor[of "T - 300000000"] by linarith
  show ?thesis
    by (simp add: get_messages_def execute_def selector_query_def search_def Search_def
        filter_q_def next_fault_def matches_def page_size_def compare_op_def bound_instant_def strftime_def
        scenario_def scenario_conf_def scenario_doc_def emit_def Let_def a b)
qed

lemma scenario_run:
  "run scenario_conf (scenario T pa pb) =
     (Inr (),
      (scenario T pa pb)\<lparr>
        trace := [Searched (selector_query scenario_conf ''lte'' (T - 300000000)),
                  Searched (selector_query scenario_conf ''gt'' (T - 300000000)),
                  Opened, Published ''stac'' (message_a pa), Closed,
                  Updated (update_query scenario_conf [Keyword ''a''])]\<rparr>)"
proof -
  have c: "now (scenario T pa pb) - timedelta (CUTOFF scenario_conf) = T - 300000000"
    by (simp add: scenario_def scenario_conf_def timedelta_def)
  have f: "filter_messages [(Keyword ''a'', \<lparr>uri = Keyword ''a'', description_path = pa\<rparr>)]
             [(Keyword ''b'', \<lparr>uri = Keyword ''b'', description_path = pb\<rparr>)] = [message_a pa]"
    by (simp add: filter_messages_def message_a_def)
  show ?thesis
    unfolding run_def Let_def c scenario_old scenario_young prod.case sum.case f
    by (simp add: publish_messages_def producer_enter_def producer_publish_def producer_exit_def
        update_subs_def execute_update_def update_query_def script_q_def query_q_def update_def
        UpdateByQuery_def apply_update_def matches_def next_fault_def emit_def Let_def
        scenario_def scenario_conf_def scenario_doc_def message_a_def)
qed

lemma published_map: "published (map (Published rk) ms) = map (Pair rk) ms"
  by (induction ms) auto

lemma run_published:
  assumes gm1: "get_messages conf ''lte'' (now w - timedelta (CUTOFF conf)) w = (Inr old, w1)"
    and gm2: "get_messages conf ''gt'' (now w - timedelta (CUTOFF conf)) w1 = (Inr young, w2)"
    and run: "run conf w = (r, w')"
  shows "\<exists>k \<le> length (filter_messages old young).
     published (new_events w w') = map (Pair (ROUTING_KEY conf)) (take k (filter_messages old young)) \<and>
     (r = Inr () \<or> r = Inl UpdateError \<longrightarrow> k = length (filter_messages old young))"
proof -
  from run_selected[OF gm1 gm2 run] obtain tail where t:
    "new_events w w' =
        [Searched (selector_query conf ''lte'' (now w - timedelta (CUTOFF conf))),
         Searched (selector_query conf ''gt'' (now w - timedelta (CUTOFF conf)))] @ tail"
    "(r = Inl PublishError \<and> tail = [Raised PublishError]) \<or>
      (\<exists>k \<le> length (filter_messages old young). r = Inl PublishError \<and>
         tail = Opened # map (Published (ROUTING_KEY conf)) (take k (filter_messages old young))
                @ [Raised PublishError, Closed]) \<or>
      (r = Inl UpdateError \<and>
         tail = Opened # map (Published (ROUTING_KEY conf)) (filter_messages old young)
                @ [Closed, Raised UpdateError]) \<or>
      (r = Inr () \<and>
         tail = Opened # map (Published (ROUTING_KEY conf)) (filter_messages old young)
                @ [Closed, Updated (update_query conf (map uri (filter_messages old young)))])"
    by blast
  from t(2) consider
    (a) "r = Inl PublishError" "published tail = []"
  | (b) k where "k \<le> length (filter_messages old young)" "r = Inl PublishError"
      "published tail = map (Pair (ROUTING_KEY conf)) (take k (filter_messages old young))"
  | (c) "published tail = map (Pair (ROUTING_KEY conf)) (filter_messages old young)"
    by (auto simp: published_append published_map)
  then show ?thesis
  proof cases
    case a
    with t(1) show ?thesis by (intro exI[of _ 0]) simp
  next
    case b
    with t(1) show ?thesis by (intro exI[of _ k]) simp
  next
    case c
    with t(1) show ?thesis by (intro exI[of _ "length (filter_messages old young)"]) simp
  qed
qed

lemma scenario_events:
  "new_events (scenario T pa pb) (snd (run scenario_conf (scenario T pa pb))) =
     [Searched (selector_query scenario_conf ''lte'' (T - 300000000)),
      Searched (selector_query scenario_conf ''gt'' (T - 300000000)),
      Opened, Published ''stac'' (message_a pa), Closed,
      Updated (update_query scenario_conf [Keyword ''a''])]"
  by (simp add: scenario_run new_events_def) (simp add: scenario_def)

subsection \<open>The loop over the hits\<close>

lemma map_of_snoc:
  "map_of (xs @ [(k, v)]) k' = (case map_of xs k' of Some v' \<Rightarrow> Some v' | None \<Rightarrow> if k' = k then Some v else None)"
  by (induction xs) auto

lemma get_messages_loop_first:
  "get_messages_loop conf hits acc = Inr msgs \<Longrightarrow> keyed acc \<Longrightarrow>
     keyed msgs \<and>
     map_of msgs k =
       (case map_of acc k of
          Some m \<Rightarrow> Some m
        | None \<Rightarrow>
            (case first_hit conf hits k of
               None \<Rightarrow> None
             | Some hit \<Rightarrow> map_option (\<lambda>p. \<lparr>uri = k, description_path = p\<rparr>)
                             (map_of hit ''description_path'')))"
proof (induction hits arbitrary: acc)
  case Nil
  then show ?case by (simp add: first_hit_def split: option.splits)
next
  case (Cons hit hits)
  from Cons.prems(1) obtain sur_id where s: "map_of hit (ID_KEY conf) = Some sur_id"
    by (auto split: option.splits)
  show ?case
  proof (cases "sur_id \<in> set (map fst acc)")
    case True
    with Cons.prems s have "get_messages_loop conf hits acc = Inr msgs" by simp
    from Cons.IH[OF this Cons.prems(2)] have ih: "keyed msgs"
      "map_of msgs k =
       (case map_of acc k of
          Some m \<Rightarrow> Some m
        | None \<Rightarrow>
            (case first_hit conf hits k of
               None \<Rightarrow> None
             | Some hit \<Rightarrow> map_option (\<lambda>p. \<lparr>uri = k, description_path = p\<rparr>)
                             (map_of hit ''description_path'')))" by auto
    from True have "map_of acc sur_id \<noteq> None"
      by (simp add: map_of_eq_None_iff)
    with ih s show ?thesis
      by (auto simp: first_hit_def split: option.splits)
  next
    case False
    with Cons.prems s obtain p where p: "map_of hit ''description_path'' = Some p"
      and l: "get_messages_loop conf hits (acc @ [(sur_id, \<lparr>uri = sur_id, description_path = p\<rparr>)]) = Inr msgs"
      by (auto split: option.splits)
    from False Cons.prems(2) have "keyed (acc @ [(sur_id, \<lparr>uri = sur_id, description_path = p\<rparr>)])"
      by (auto simp: keyed_def)
    from Cons.IH[OF l this] have ih: "keyed msgs"
      "map_of msgs k =
       (case map_of (acc @ [(sur_id, \<lparr>uri = sur_id, description_path = p\<rparr>)]) k of
          Some m \<Rightarrow> Some m
        | None \<Rightarrow>
            (case first_hit conf hits k of
               None \<Rightarrow> None
             | Some hit \<Rightarrow> map_option (\<lambda>p. \<lparr>uri = k, description_path = p\<rparr>)
                             (map_of hit ''description_path'')))" by auto
    from False have n: "map_of acc sur_id = None"
      by (simp add: map_of_eq_None_iff)
    from ih s p n show ?thesis
      by (auto simp: first_hit_def map_of_snoc split: option.splits)
  qed
qed

lemma get_messages_loop_path:
  "get_messages_loop conf hits acc = Inr msgs \<Longrightarrow> map_of acc k = None \<Longrightarrow>
   first_hit conf hits k = Some hit \<Longrightarrow> map_of hit ''description_path'' \<noteq> None"
proof (induction hits arbitrary: acc)
  case Nil
  then show ?case by (simp add: first_hit_def)
next
  case (Cons h hits)
  from Cons.prems(1) obtain sur_id where s: "map_of h (ID_KEY conf) = Some sur_id"
    by (auto split: option.splits)
  show ?case
  proof (cases "k = sur_id")
    case True
    with Cons.prems(2) have "sur_id \<notin> set (map fst acc)"
      by (simp add: map_of_eq_None_iff)
    moreover from True s Cons.prems(3) have "hit = h" by (simp add: first_hit_def)
    ultimately show ?thesis using Cons.prems(1) s by (auto split: option.splits)
  next
    case False
    with s Cons.prems(3) have f: "first_hit conf hits k = Some hit" by (simp add: first_hit_def)
    show ?thesis
    proof (cases "sur_id \<in> set (map fst acc)")
      case True
      with Cons.prems(1) s have "get_messages_loop conf hits acc = Inr msgs" by simp
      from Cons.IH[OF this Cons.prems(2) f] show ?thesis .
    next
      case notin: False
      with Cons.prems(1) s obtain p where
        l: "get_messages_loop conf hits (acc @ [(sur_id, \<lparr>uri = sur_id, description_path = p\<rparr>)]) = Inr msgs"
        by (auto split: option.splits)
      from False Cons.prems(2)
      have "map_of (acc @ [(sur_id, \<lparr>uri = sur_id, description_path = p\<rparr>)]) k = None"
        by (simp add: map_of_snoc)
      from Cons.IH[OF l this f] show ?thesis .
    qed
  qed
qed

lemma first_hit_None: "first_hit conf hits k = None \<longleftrightarrow> (\<forall>hit \<in> set hits. map_of hit (ID_KEY conf) \<noteq> Some k)"
  by (auto simp: first_hit_def find_None_iff)

lemma execute_get_messages:
  "fst (execute (selector_query conf operator cutoff) w) = Inr hits \<Longrightarrow>
   fst (get_messages conf operator cutoff w) = get_messages_loop conf hits []"
  by (cases "execute (selector_query conf operator cutoff) w") (auto simp: get_messages_def)

lemma duplicates_hits:
  "execute (selector_query scenario_conf ''lte'' 1000000) duplicates =
     (Inr (docs duplicates),
      emit (Searched (selector_query scenario_conf ''lte'' 1000000)) duplicates)"
  by (simp add: execute_def selector_query_def search_def Search_def
        filter_q_def next_fault_def matches_def page_size_def compare_op_def bound_instant_def strftime_def
        duplicates_def scenario_conf_def emit_def Let_def)

subsection \<open>The bulk update\<close>

lemma status_path: "''properties.'' @ k \<noteq> ''status''"
  by simp

lemma apply_update_query:
  "apply_update up (update_query conf ids) d =
     (if map_of d (''properties.'' @ ID_KEY conf) \<in> Some ` set ids
      then AList.update ''status'' (Keyword ''queued'') d else d)"
  by (auto simp: apply_update_def update_query_def script_q_def query_q_def update_def
      UpdateByQuery_def matches_def split: option.splits)

lemma apply_update_query_other:
  "f \<noteq> ''status'' \<Longrightarrow> map_of (apply_update up (update_query conf ids) d) f = map_of d f"
  by (simp add: apply_update_query update_conv')

lemma apply_update_query_idem:
  "apply_update up' (update_query conf ids) (apply_update up (update_query conf ids) d)
     = apply_update up (update_query conf ids) d"
proof (cases "map_of d (''properties.'' @ ID_KEY conf) \<in> Some ` set ids")
  case True
  then have "map_of (AList.update ''status'' (Keyword ''queued'') d) (''properties.'' @ ID_KEY conf)
      \<in> Some ` set ids"
    by (simp add: update_conv')
  with True show ?thesis by (simp add: apply_update_query)
next
  case False
  then show ?thesis by (simp add: apply_update_query)
qed

lemma update_subs_ok:
  "\<not> next_fault (es_faults w) \<Longrightarrow>
     update_subs conf ms w =
       (Inr (), emit (Updated (update_query conf (map uri ms)))
          (w\<lparr>es_faults := tl (es_faults w),
             docs := map (apply_update (rounds_up w) (update_query conf (map uri ms)))
                       (docs w)\<rparr>))"
  by (simp add: update_subs_def execute_update_def Let_def update_query_def script_q_def
      query_q_def update_def UpdateByQuery_def)

lemma update_subs_docs:
  "docs (snd (update_subs conf ms w)) = docs w \<or>
   fst (update_subs conf ms w) = Inr () \<and>
   docs (snd (update_subs conf ms w))
     = map (apply_update (rounds_up w) (update_query conf (map uri ms))) (docs w)"
  using update_subs_cases[OF surjective_pairing, of conf ms w] by auto

lemma update_subs_docs_ok:
  "fst (update_subs conf ms w) = Inr () \<Longrightarrow>
   docs (snd (update_subs conf ms w))
     = map (apply_update (rounds_up w) (update_query conf (map uri ms))) (docs w)"
  using update_subs_cases[OF surjective_pairing, of conf ms w] by auto

text \<open>
  What the bulk update does: unless the request fails, it is one request, keyed on the
  list of the messages' uris, after which every document whose field
  \<open>properties.ID_KEY\<close> is among these uris has the status \<open>queued\<close>; a document whose
  field \<open>properties.ID_KEY\<close> is not among them is left as it was.
\<close>

lemma update_subs_marks:
  assumes nf: "\<not> next_fault (es_faults w)"
  shows "fst (update_subs conf messages w) = Inr ()"
    and "new_events w (snd (update_subs conf messages w))
       = [Updated (update_query conf (map uri messages))]"
    and "upd_query (update_query conf (map uri messages))
       = [Terms_q (''properties.'' @ ID_KEY conf) (map uri messages)]"
    and "upd_script (update_query conf (map uri messages)) = Some (''status'', Keyword ''queued'')"
    and "length (docs (snd (update_subs conf messages w))) = length (docs w)"
    and "i < length (docs w) \<Longrightarrow>
      map_of (docs w ! i) (''properties.'' @ ID_KEY conf) \<in> Some ` uri ` set messages \<Longrightarrow>
        map_of (docs (snd (update_subs conf messages w)) ! i) ''status''
          = Some (Keyword ''queued'')"
proof -
  let ?u = "update_query conf (map uri messages)"
  note ok = update_subs_ok[OF nf, of conf messages]
  show "fst (update_subs conf messages w) = Inr ()" by (simp add: ok)
  show "new_events w (snd (update_subs conf messages w)) = [Updated ?u]"
    by (simp add: ok new_events_def emit_def)
  show "upd_query ?u = [Terms_q (''properties.'' @ ID_KEY conf) (map uri messages)]"
    "upd_script ?u = Some (''status'', Keyword ''queued'')"
    by (simp_all add: update_query_def script_q_def query_q_def update_def UpdateByQuery_def)
  have d: "docs (snd (update_subs conf messages w)) = map (apply_update (rounds_up w) ?u) (docs w)"
    by (simp add: ok emit_def)
  then show "length (docs (snd (update_subs conf messages w))) = length (docs w)" by simp
  show "map_of (docs (snd (update_subs conf messages w)) ! i) ''status''
          = Some (Keyword ''queued'')"
    if "i < length (docs w)"
      "map_of (docs w ! i) (''properties.'' @ ID_KEY conf) \<in> Some ` uri ` set messages"
    using that by (simp add: d apply_update_query update_conv')
qed

lemma update_subs_frame:
  "length (docs (snd (update_subs conf messages w))) = length (docs w)"
  "i < length (docs w) \<Longrightarrow>
    map_of (docs w ! i) (''properties.'' @ ID_KEY conf) \<notin> Some ` uri ` set messages \<Longrightarrow>
      docs (snd (update_subs conf messages w)) ! i = docs w ! i"
  using update_subs_docs[of conf messages w] by (auto simp: apply_update_query)

text \<open>
  On an index whose documents all carry under \<open>properties.ID_KEY\<close> what they carry under
  \<open>ID_KEY\<close>, the update marks every document whose identifier is among the uris and
  leaves every other document as it was.
\<close>

lemma update_subs_marks_agreeing:
  assumes "\<not> next_fault (es_faults w)"
    and "\<forall>d \<in> set (docs w). map_of d (''properties.'' @ ID_KEY conf) = map_of d (ID_KEY conf)"
    and "i < length (docs w)"
    and "map_of (docs w ! i) (ID_KEY conf) \<in> Some ` uri ` set messages"
  shows "map_of (docs (snd (update_subs conf messages w)) ! i) ''status''
          = Some (Keyword ''queued'')"
proof -
  from assms(2,3) have "map_of (docs w ! i) (''properties.'' @ ID_KEY conf)
      = map_of (docs w ! i) (ID_KEY conf)" by simp
  with assms(4) have "map_of (docs w ! i) (''properties.'' @ ID_KEY conf)
      \<in> Some ` uri ` set messages" by simp
  with assms(1,3) show ?thesis by (rule update_subs_marks(6))
qed

lemma update_subs_frame_agreeing:
  assumes "\<forall>d \<in> set (docs w). map_of d (''properties.'' @ ID_KEY conf) = map_of d (ID_KEY conf)"
    and "i < length (docs w)"
    and "map_of (docs w ! i) (ID_KEY conf) \<notin> Some ` uri ` set messages"
  shows "docs (snd (update_subs conf messages w)) ! i = docs w ! i"
proof -
  from assms(1,2) have "map_of (docs w ! i) (''properties.'' @ ID_KEY conf)
      = map_of (docs w ! i) (ID_KEY conf)" by simp
  with assms(3) have "map_of (docs w ! i) (''properties.'' @ ID_KEY conf)
      \<notin> Some ` uri ` set messages" by simp
  with assms(2) show ?thesis by (rule update_subs_frame(2))
qed

lemma update_subs_rounds_up:
  "rounds_up (snd (update_subs conf ms w)) = rounds_up w"
  by (simp add: update_subs_def execute_update_def emit_def Let_def)

lemma disagreeing_update:
  "update_subs scenario_conf [message_a (Keyword ''p'')] disagreeing =
     (Inr (),
      disagreeing\<lparr>
        docs := [[(''id'', Keyword ''a''), (''description_path'', Keyword ''p''),
                  (''status'', Keyword ''new''), (''mod_time'', Date 0)],
                 [(''id'', Keyword ''z''), (''properties.id'', Keyword ''a''),
                  (''description_path'', Keyword ''q''), (''status'', Keyword ''queued''),
                  (''mod_time'', Date 0)]],
        trace := [Updated (update_query scenario_conf [Keyword ''a''])]\<rparr>)"
  by (simp add: update_subs_def execute_update_def update_query_def script_q_def query_q_def
      update_def UpdateByQuery_def apply_update_def matches_def next_fault_def emit_def Let_def
      disagreeing_def scenario_conf_def message_a_def)

subsection \<open>Cycles with injected failures\<close>

lemmas eval_defs = run_def get_messages_def execute_def selector_query_def search_def Search_def
  filter_q_def next_fault_def matches_def page_size_def compare_op_def bound_instant_def strftime_def timedelta_def
  publish_messages_def producer_enter_def producer_publish_def producer_exit_def
  update_subs_def execute_update_def update_query_def script_q_def query_q_def update_def
  UpdateByQuery_def apply_update_def filter_messages_def emit_def Let_def new_events_def
  scenario_def scenario_conf_def scenario_doc_def faulty_def message_a_def

lemma faulty_query:
  "run scenario_conf (faulty [True] []) =
     (Inl QueryError, (faulty [] [])\<lparr>trace := [Raised QueryError]\<rparr>)"
  by (simp add: eval_defs)

lemma faulty_publish:
  "run scenario_conf (faulty [] [False, True]) =
     (Inl PublishError, (faulty [] [])\<lparr>trace :=
        [Searched (selector_query scenario_conf ''lte'' (- 300000000)),
         Searched (selector_query scenario_conf ''gt'' (- 300000000)),
         Opened, Raised PublishError, Closed]\<rparr>)"
  by (simp add: eval_defs)

lemma faulty_update:
  "run scenario_conf (faulty [False, False, True] []) =
     (Inl UpdateError, (faulty [] [])\<lparr>trace :=
        [Searched (selector_query scenario_conf ''lte'' (- 300000000)),
         Searched (selector_query scenario_conf ''gt'' (- 300000000)),
         Opened, Published ''stac'' (message_a (Keyword ''p'')), Closed,
         Raised UpdateError]\<rparr>)"
  by (simp add: eval_defs)

lemma split_at_last:
  "pre @ ev # post = ys @ [l] \<Longrightarrow> ev \<notin> set ys \<Longrightarrow> pre = ys \<and> ev = l \<and> post = []"
proof (cases post rule: rev_cases)
  case Nil
  assume "pre @ ev # post = ys @ [l]"
  with Nil show ?thesis by simp
next
  case (snoc post' x)
  assume "pre @ ev # post = ys @ [l]" "ev \<notin> set ys"
  with snoc have "(pre @ ev # post') @ [x] = ys @ [l]" by simp
  then have "pre @ ev # post' = ys" by (simp only: append1_eq_conv)
  with \<open>ev \<notin> set ys\<close> show ?thesis by auto
qed

lemma run_cases:
  assumes "run conf w = (r, w')"
  obtains
    (not_selected) "r = Inl QueryError \<or> (\<exists>k. r = Inl (KeyError k))"
      "set (new_events w w') \<subseteq>
         {Raised QueryError,
          Searched (selector_query conf ''lte'' (now w - timedelta (CUTOFF conf))),
          Searched (selector_query conf ''gt'' (now w - timedelta (CUTOFF conf)))}"
      "Raised QueryError \<in> set (new_events w w') \<longrightarrow> r = Inl QueryError"
  | (selected) old w1 young w2 tail where
      "get_messages conf ''lte'' (now w - timedelta (CUTOFF conf)) w = (Inr old, w1)"
      "get_messages conf ''gt'' (now w - timedelta (CUTOFF conf)) w1 = (Inr young, w2)"
      "new_events w w' =
        [Searched (selector_query conf ''lte'' (now w - timedelta (CUTOFF conf))),
         Searched (selector_query conf ''gt'' (now w - timedelta (CUTOFF conf)))] @ tail"
      "(r = Inl PublishError \<and> tail = [Raised PublishError]) \<or>
      (\<exists>k \<le> length (filter_messages old young). r = Inl PublishError \<and>
         tail = Opened # map (Published (ROUTING_KEY conf)) (take k (filter_messages old young))
                @ [Raised PublishError, Closed]) \<or>
      (r = Inl UpdateError \<and>
         tail = Opened # map (Published (ROUTING_KEY conf)) (filter_messages old young)
                @ [Closed, Raised UpdateError]) \<or>
      (r = Inr () \<and>
         tail = Opened # map (Published (ROUTING_KEY conf)) (filter_messages old young)
                @ [Closed, Updated (update_query conf (map uri (filter_messages old young)))])"
proof (cases "\<exists>old w1 young w2.
        get_messages conf ''lte'' (now w - timedelta (CUTOFF conf)) w = (Inr old, w1) \<and>
        get_messages conf ''gt'' (now w - timedelta (CUTOFF conf)) w1 = (Inr young, w2)")
  case True
  then obtain old w1 young w2 where
    g: "get_messages conf ''lte'' (now w - timedelta (CUTOFF conf)) w = (Inr old, w1)"
       "get_messages conf ''gt'' (now w - timedelta (CUTOFF conf)) w1 = (Inr young, w2)"
    by blast
  from run_selected[OF g assms] g show ?thesis by (elim exE conjE) (rule selected)
next
  case False
  from run_not_selected[OF assms False] show ?thesis
    by (intro not_selected) auto
qed

subsection \<open>The selector's query\<close>

lemma matches_selector:
  "matches up (req_filters (selector_query conf operator c)) d =
     (map_of d ''status'' = Some (Keyword ''new'') \<and>
      clause_holds up (Range_q ''mod_time'' operator (strftime c)) d)"
  by (simp add: matches_def selector_query_def search_def Search_def filter_q_def)

lemma range_lte:
  "clause_holds up (Range_q ''mod_time'' ''lte'' b) d =
     (\<exists>t. map_of d ''mod_time'' = Some (Date t) \<and> t \<le> bound_instant up ''lte'' b)"
  by (auto simp: compare_op_def split: option.splits fval.splits)

lemma range_gt:
  "clause_holds up (Range_q ''mod_time'' ''gt'' b) d =
     (\<exists>t. map_of d ''mod_time'' = Some (Date t) \<and> bound_instant up ''gt'' b < t)"
  by (auto simp: compare_op_def split: option.splits fval.splits)

lemma execute_hits:
  "fst (execute q w) = Inr hits \<Longrightarrow> hit \<in> set hits \<Longrightarrow>
     hit \<in> set (docs w) \<and> matches (rounds_up w) (req_filters q) hit"
  by (auto simp: execute_def Let_def split: if_splits dest: in_set_takeD)

lemma execute_page:
  "fst (execute q w) = Inr hits \<Longrightarrow> length hits \<le> page_size q w"
  by (auto simp: execute_def Let_def split: if_splits)

lemma selector_status_gating:
  "fst (execute (selector_query conf operator c) w) = Inr hits \<Longrightarrow> hit \<in> set hits \<Longrightarrow>
     map_of hit ''status'' = Some (Keyword ''new'')"
  by (auto dest: execute_hits simp: matches_selector simp del: clause_holds.simps)

lemma get_messages_loop_length:
  "get_messages_loop conf hits acc = Inr msgs \<Longrightarrow> length msgs \<le> length acc + length hits"
proof (induction hits arbitrary: acc)
  case Nil
  then show ?case by simp
next
  case (Cons hit hits)
  then show ?case by (fastforce split: option.splits if_splits)
qed

lemma get_messages_page:
  assumes "fst (get_messages conf operator c w) = Inr cands"
  shows "length cands \<le> page_default w"
proof -
  obtain r1 w1 where e: "execute (selector_query conf operator c) w = (r1, w1)"
    by (cases "execute (selector_query conf operator c) w")
  with assms obtain hits where h: "r1 = Inr hits" "get_messages_loop conf hits [] = Inr cands"
    by (cases r1) (auto simp: get_messages_def)
  from e h(1) have "length hits \<le> page_size (selector_query conf operator c) w"
    by (intro execute_page) simp
  moreover have "page_size (selector_query conf operator c) w = page_default w"
    by (simp add: page_size_def selector_query_def search_def Search_def filter_q_def)
  moreover from get_messages_loop_length[OF h(2)] have "length cands \<le> length hits" by simp
  ultimately show ?thesis by simp
qed

lemma subsecond_run:
  "run scenario_conf subsecond =
     (Inr (),
      subsecond\<lparr>
        trace := [Searched (selector_query scenario_conf ''lte'' 1500000),
                  Searched (selector_query scenario_conf ''gt'' 1500000),
                  Opened,
                  Published ''stac'' \<lparr>uri = Keyword ''e'', description_path = Keyword ''p''\<rparr>,
                  Closed,
                  Updated (update_query scenario_conf [Keyword ''e''])]\<rparr>)"
  by (simp add: eval_defs subsecond_def)

lemma subsecond_hits:
  "fst (execute (selector_query scenario_conf ''lte'' 1500000) subsecond)
     = Inr [scenario_doc ''e'' (Keyword ''p'') 1000000]"
  "fst (execute (selector_query scenario_conf ''gt'' 1500000) subsecond)
     = Inr [scenario_doc ''f'' (Keyword ''q'') 1200000]"
  by (simp_all add: eval_defs subsecond_def)

subsection \<open>After a failure\<close>

lemma split_unique:
  "pre @ x # post = ys @ y # zs \<Longrightarrow> x \<notin> set ys \<Longrightarrow> x \<notin> set zs \<Longrightarrow>
     pre = ys \<and> x = y \<and> post = zs"
proof (induction ys arbitrary: pre)
  case Nil
  then show ?case by (cases pre) auto
next
  case (Cons a ys)
  then show ?case by (cases pre) auto
qed

lemma run_raised:
  assumes run: "run conf w = (r, w')" and ne: "new_events w w' = pre @ Raised e # post"
  shows "r = Inl e \<and> (post = [] \<or> e = PublishError \<and> post = [Closed])"
proof -
  let ?q1 = "Searched (selector_query conf ''lte'' (now w - timedelta (CUTOFF conf)))"
  let ?q2 = "Searched (selector_query conf ''gt'' (now w - timedelta (CUTOFF conf)))"
  have mem: "Raised e \<in> set (new_events w w')" using ne by simp
  show ?thesis
  proof (cases "\<exists>old w1 young w2.
        get_messages conf ''lte'' (now w - timedelta (CUTOFF conf)) w = (Inr old, w1) \<and>
        get_messages conf ''gt'' (now w - timedelta (CUTOFF conf)) w1 = (Inr young, w2)")
    case False
    from run_not_selected[OF run False] mem
    consider "r = Inl QueryError" "new_events w w' = [] @ Raised QueryError # []"
      | "r = Inl QueryError" "new_events w w' = [?q1] @ Raised QueryError # []"
      by auto
    then show ?thesis
    proof cases
      case 1
      from split_unique[OF ne[unfolded 1(2), symmetric]] 1(1) show ?thesis by auto
    next
      case 2
      from split_unique[OF ne[unfolded 2(2), symmetric]] 2(1) show ?thesis by auto
    qed
  next
    case True
    then obtain old w1 young w2 where
      g: "get_messages conf ''lte'' (now w - timedelta (CUTOFF conf)) w = (Inr old, w1)"
         "get_messages conf ''gt'' (now w - timedelta (CUTOFF conf)) w1 = (Inr young, w2)"
      by blast
    let ?ms = "filter_messages old young"
    from run_selected[OF g run] mem
    consider
      (enter) "r = Inl PublishError" "new_events w w' = [?q1, ?q2] @ Raised PublishError # []"
    | (publish) k where "r = Inl PublishError"
        "new_events w w' = ([?q1, ?q2, Opened] @ map (Published (ROUTING_KEY conf)) (take k ?ms))
           @ Raised PublishError # [Closed]"
    | (update) "r = Inl UpdateError"
        "new_events w w' = ([?q1, ?q2, Opened] @ map (Published (ROUTING_KEY conf)) ?ms @ [Closed])
           @ Raised UpdateError # []"
      by (auto dest: in_set_takeD)
    then show ?thesis
    proof cases
      case enter
      from split_unique[OF ne[unfolded enter(2), symmetric]] enter(1) show ?thesis by auto
    next
      case publish
      from split_unique[OF ne[unfolded publish(2), symmetric]] publish(1) show ?thesis by auto
    next
      case update
      from split_unique[OF ne[unfolded update(2), symmetric]] update(1) show ?thesis by auto
    qed
  qed
qed

subsection \<open>An identifier on both sides of the cutoff\<close>

lemma drifting_old:
  "get_messages scenario_conf ''lte'' (now drifting - timedelta (CUTOFF scenario_conf)) drifting =
     (Inr [(Keyword ''a'', \<lparr>uri = Keyword ''a'', description_path = Keyword ''p''\<rparr>),
           (Keyword ''c'', \<lparr>uri = Keyword ''c'', description_path = Keyword ''r''\<rparr>)],
      emit (Searched (selector_query scenario_conf ''lte'' (- 300000000))) drifting)"
  by (simp add: eval_defs drifting_def)

lemma drifting_young:
  "get_messages scenario_conf ''gt'' (now drifting - timedelta (CUTOFF scenario_conf))
     (emit (Searched (selector_query scenario_conf ''lte'' (- 300000000))) drifting) =
     (Inr [(Keyword ''a'', \<lparr>uri = Keyword ''a'', description_path = Keyword ''q''\<rparr>)],
      emit (Searched (selector_query scenario_conf ''gt'' (- 300000000)))
        (emit (Searched (selector_query scenario_conf ''lte'' (- 300000000))) drifting))"
  by (simp add: eval_defs drifting_def)

lemma drifting_published:
  "published (new_events drifting (snd (run scenario_conf drifting)))
     = [(''stac'', \<lparr>uri = Keyword ''c'', description_path = Keyword ''r''\<rparr>)]"
  by (simp add: eval_defs drifting_def)

subsection \<open>The scenario on an index that rejects the selector's term clause\<close>

lemma scenario_strict_run:
  "run scenario_conf ((scenario T pa pb)\<lparr>term_strict := True\<rparr>) =
     (Inl QueryError,
      (scenario T pa pb)\<lparr>term_strict := True, trace := [Raised QueryError]\<rparr>)"
  by (simp add: eval_defs)

lemma crowded_strict:
  "fst (get_messages scenario_conf ''lte'' 0 (crowded\<lparr>term_strict := True\<rparr>)) = Inl QueryError"
  by (simp add: eval_defs crowded_def)

subsection \<open>The sub-second documents on an index that rounds up\<close>

lemma subsecond_rounded_hits:
  "fst (execute (selector_query scenario_conf ''lte'' 1500000) (subsecond\<lparr>rounds_up := True\<rparr>))
     = Inr [scenario_doc ''e'' (Keyword ''p'') 1000000,
            scenario_doc ''f'' (Keyword ''q'') 1200000]"
  "fst (execute (selector_query scenario_conf ''gt'' 1500000) (subsecond\<lparr>rounds_up := True\<rparr>))
     = Inr []"
  by (simp_all add: eval_defs subsecond_def)

lemma subsecond_rounded_published:
  "published (new_events (subsecond\<lparr>rounds_up := True\<rparr>)
      (snd (run scenario_conf (subsecond\<lparr>rounds_up := True\<rparr>))))
     = [(''stac'', \<lparr>uri = Keyword ''e'', description_path = Keyword ''p''\<rparr>),
        (''stac'', \<lparr>uri = Keyword ''f'', description_path = Keyword ''q''\<rparr>)]"
  by (simp add: eval_defs subsecond_def)

lemma bound_instant_floor:
  "bound_instant False operator b = b * 1000000"
  "bound_instant True ''lte'' b = b * 1000000 + 999999"
  "bound_instant True ''gt'' b = b * 1000000 + 999999"
  by (simp_all add: bound_instant_def)

lemma disagreeing_selected:
  "fst (get_messages scenario_conf ''lte'' 0 disagreeing)
     = Inr [(Keyword ''a'', message_a (Keyword ''p'')),
            (Keyword ''z'', \<lparr>uri = Keyword ''z'', description_path = Keyword ''q''\<rparr>)]"
  by (simp add: eval_defs disagreeing_def)

section \<open>The claims\<close>

subsection \<open>C1: the drift filter\<close>

text \<open>
  C1, as stated, asks that \<open>filter(A \<union> C, B \<union> C)\<close> yield exactly \<open>A\<close> for disjoint
  \<open>A\<close>, \<open>B\<close> and any \<open>C\<close>. With \<open>A = C = {a}\<close> and \<open>B = {}\<close> both maps hold the
  identifier \<open>a\<close>, and the filter returns nothing.
\<close>

theorem filter_messages_overlap_counterexample:
  "keyed [(Keyword ''a'', \<lparr>uri = Keyword ''a'', description_path = Keyword ''p''\<rparr>)] \<and>
   fst ` set [(Keyword ''a'', \<lparr>uri = Keyword ''a'', description_path = Keyword ''p''\<rparr>)]
     = {Keyword ''a''} \<union> {Keyword ''a''} \<and>
   fst ` set [(Keyword ''a'', \<lparr>uri = Keyword ''a'', description_path = Keyword ''p''\<rparr>)]
     = {} \<union> {Keyword ''a''} \<and>
   {Keyword ''a''} \<inter> ({}::fval set) = {} \<and>
   filter_messages [(Keyword ''a'', \<lparr>uri = Keyword ''a'', description_path = Keyword ''p''\<rparr>)]
     [(Keyword ''a'', \<lparr>uri = Keyword ''a'', description_path = Keyword ''p''\<rparr>)] = [] \<and>
   uri ` set (filter_messages
     [(Keyword ''a'', \<lparr>uri = Keyword ''a'', description_path = Keyword ''p''\<rparr>)]
     [(Keyword ''a'', \<lparr>uri = Keyword ''a'', description_path = Keyword ''p''\<rparr>)])
     \<noteq> {Keyword ''a''}"
  by (simp add: keyed_def filter_messages_def)

text \<open>
  C1 (amended): \<open>filter_messages\<close> returns exactly the messages of the old map whose
  \<open>uri\<close> is not a key of the young map; for identifier sets \<open>A\<close>, \<open>B\<close>, \<open>C\<close> with \<open>A\<close>
  disjoint from \<open>B\<close> and from \<open>C\<close>, filtering a candidate map over \<open>A \<union> C\<close> against one
  over \<open>B \<union> C\<close> yields exactly the identifiers of \<open>A\<close>, each once; and within one
  cycle no message whose identifier is a key of the young query's result is published.
\<close>

theorem filter_messages_drift:
  "set (filter_messages old young) = {m \<in> snd ` set old. uri m \<notin> fst ` set young} \<and>
   (keyed old \<and> fst ` set old = A \<union> C \<and> fst ` set young = B \<union> C \<and>
    A \<inter> B = {} \<and> A \<inter> C = {} \<longrightarrow>
      uri ` set (filter_messages old young) = A \<and>
      distinct (map uri (filter_messages old young))) \<and>
   (get_messages conf ''lte'' (now w - timedelta (CUTOFF conf)) w = (Inr old_messages, w1) \<and>
    get_messages conf ''gt'' (now w - timedelta (CUTOFF conf)) w1 = (Inr young_messages, w2) \<and>
    run conf w = (r, w') \<and> (rk, m) \<in> set (published (new_events w w')) \<longrightarrow>
      uri m \<notin> fst ` set young_messages)"
proof (intro conjI impI)
  show "set (filter_messages old young) = {m \<in> snd ` set old. uri m \<notin> fst ` set young}"
    by (rule set_filter_messages)
next
  assume "keyed old \<and> fst ` set old = A \<union> C \<and> fst ` set young = B \<union> C \<and>
    A \<inter> B = {} \<and> A \<inter> C = {}"
  then have "uri ` set (filter_messages old young) = A \<and>
      distinct (map uri (filter_messages old young))"
    by (intro drift) auto
  then show "uri ` set (filter_messages old young) = A"
    and "distinct (map uri (filter_messages old young))" by auto
next
  assume h: "get_messages conf ''lte'' (now w - timedelta (CUTOFF conf)) w = (Inr old_messages, w1) \<and>
    get_messages conf ''gt'' (now w - timedelta (CUTOFF conf)) w1 = (Inr young_messages, w2) \<and>
    run conf w = (r, w') \<and> (rk, m) \<in> set (published (new_events w w'))"
  from run_published[of conf w old_messages w1 young_messages w2 r w'] h
  obtain k where "published (new_events w w') =
      map (Pair (ROUTING_KEY conf)) (take k (filter_messages old_messages young_messages))"
    by blast
  with h have "m \<in> set (take k (filter_messages old_messages young_messages))" by auto
  then have "m \<in> set (filter_messages old_messages young_messages)" by (rule in_set_takeD)
  then show "uri m \<notin> fst ` set young_messages" by (simp add: set_filter_messages)
qed

theorem filter_messages_drift_witness:
  "uri ` set (filter_messages
      [(Keyword ''a'', \<lparr>uri = Keyword ''a'', description_path = Keyword ''p''\<rparr>),
       (Keyword ''c'', \<lparr>uri = Keyword ''c'', description_path = Keyword ''r''\<rparr>)]
      [(Keyword ''b'', \<lparr>uri = Keyword ''b'', description_path = Keyword ''q''\<rparr>),
       (Keyword ''c'', \<lparr>uri = Keyword ''c'', description_path = Keyword ''r''\<rparr>)])
     = {Keyword ''a''} \<and>
   fst (get_messages scenario_conf ''lte'' (now drifting - timedelta (CUTOFF scenario_conf)) drifting)
     = Inr [(Keyword ''a'', \<lparr>uri = Keyword ''a'', description_path = Keyword ''p''\<rparr>),
            (Keyword ''c'', \<lparr>uri = Keyword ''c'', description_path = Keyword ''r''\<rparr>)] \<and>
   published (new_events drifting (snd (run scenario_conf drifting)))
     = [(''stac'', \<lparr>uri = Keyword ''c'', description_path = Keyword ''r''\<rparr>)] \<and>
   uri \<lparr>uri = Keyword ''c'', description_path = Keyword ''r''\<rparr>
     \<notin> fst ` set [(Keyword ''a'', \<lparr>uri = Keyword ''a'', description_path = Keyword ''q''\<rparr>)]"
proof -
  have k: "keyed [(Keyword ''a'', \<lparr>uri = Keyword ''a'', description_path = Keyword ''p''\<rparr>),
       (Keyword ''c'', \<lparr>uri = Keyword ''c'', description_path = Keyword ''r''\<rparr>)]"
    by (simp add: keyed_def)
  have p: "(''stac'', \<lparr>uri = Keyword ''c'', description_path = Keyword ''r''\<rparr>)
     \<in> set (published (new_events drifting (snd (run scenario_conf drifting))))"
    by (simp add: drifting_published)
  have r: "run scenario_conf drifting
     = (fst (run scenario_conf drifting), snd (run scenario_conf drifting))"
    by simp
  from filter_messages_drift[where old = "[(Keyword ''a'', \<lparr>uri = Keyword ''a'', description_path = Keyword ''p''\<rparr>),
       (Keyword ''c'', \<lparr>uri = Keyword ''c'', description_path = Keyword ''r''\<rparr>)]"
      and young = "[(Keyword ''b'', \<lparr>uri = Keyword ''b'', description_path = Keyword ''q''\<rparr>),
       (Keyword ''c'', \<lparr>uri = Keyword ''c'', description_path = Keyword ''r''\<rparr>)]"
      and A = "{Keyword ''a''}" and B = "{Keyword ''b''}" and C = "{Keyword ''c''}"
      and conf = scenario_conf and w = drifting
      and m = "\<lparr>uri = Keyword ''c'', description_path = Keyword ''r''\<rparr>" and rk = "''stac''"
      and r = "fst (run scenario_conf drifting)" and w' = "snd (run scenario_conf drifting)"
      and old_messages = "[(Keyword ''a'', \<lparr>uri = Keyword ''a'', description_path = Keyword ''p''\<rparr>),
           (Keyword ''c'', \<lparr>uri = Keyword ''c'', description_path = Keyword ''r''\<rparr>)]"
      and young_messages = "[(Keyword ''a'', \<lparr>uri = Keyword ''a'', description_path = Keyword ''q''\<rparr>)]"
      and ?w1.0 = "emit (Searched (selector_query scenario_conf ''lte'' (- 300000000))) drifting"
      and ?w2.0 = "emit (Searched (selector_query scenario_conf ''gt'' (- 300000000)))
         (emit (Searched (selector_query scenario_conf ''lte'' (- 300000000))) drifting)"]
    k p r drifting_old drifting_young drifting_published
  show ?thesis by auto
qed

subsection \<open>C2: the scenario\<close>

text \<open>
  C2 at its own scenario: documents \<open>a\<close> (modified ten minutes before \<open>T\<close>) and \<open>b\<close>
  (one minute before \<open>T\<close>), both new, and a cutoff age of five minutes. One cycle run at
  \<open>T\<close> succeeds and publishes exactly one message, whose \<open>uri\<close> is \<open>a\<close>, as the claim
  says; but the bulk update matches \<open>properties.id\<close>, which no document carries, and
  \<open>a\<close> is left new where the claim has it queued. On an index that rejects the
  selector's term clause the cycle ends in the first query's error and publishes nothing.
\<close>

theorem scenario_cycle_unmarked:
  "docs (scenario T pa pb)
     = [[(''id'', Keyword ''a''), (''description_path'', pa), (''status'', Keyword ''new''),
         (''mod_time'', Date (T - 10 * 60000000))],
        [(''id'', Keyword ''b''), (''description_path'', pb), (''status'', Keyword ''new''),
         (''mod_time'', Date (T - 1 * 60000000))]] \<and>
   now (scenario T pa pb) = T \<and> timedelta (CUTOFF scenario_conf) = 5 * 60000000 \<and>
   fst (run scenario_conf (scenario T pa pb)) = Inr () \<and>
   published (new_events (scenario T pa pb) (snd (run scenario_conf (scenario T pa pb))))
     = [(''stac'', \<lparr>uri = Keyword ''a'', description_path = pa\<rparr>)] \<and>
   last (new_events (scenario T pa pb) (snd (run scenario_conf (scenario T pa pb))))
     = Updated (update_query scenario_conf [Keyword ''a'']) \<and>
   upd_query (update_query scenario_conf [Keyword ''a''])
     = [Terms_q ''properties.id'' [Keyword ''a'']] \<and>
   map (\<lambda>d. (map_of d ''id'', map_of d ''status''))
       (docs (snd (run scenario_conf (scenario T pa pb))))
     = [(Some (Keyword ''a''), Some (Keyword ''new'')),
        (Some (Keyword ''b''), Some (Keyword ''new''))] \<and>
   fst (run scenario_conf ((scenario T pa pb)\<lparr>term_strict := True\<rparr>)) = Inl QueryError \<and>
   published (new_events ((scenario T pa pb)\<lparr>term_strict := True\<rparr>)
       (snd (run scenario_conf ((scenario T pa pb)\<lparr>term_strict := True\<rparr>)))) = []"
proof -
  have "published (new_events (scenario T pa pb) (snd (run scenario_conf (scenario T pa pb))))
     = [(''stac'', \<lparr>uri = Keyword ''a'', description_path = pa\<rparr>)]"
    "last (new_events (scenario T pa pb) (snd (run scenario_conf (scenario T pa pb))))
     = Updated (update_query scenario_conf [Keyword ''a''])"
    by (simp_all add: scenario_events message_a_def)
  moreover have "map (\<lambda>d. (map_of d ''id'', map_of d ''status''))
       (docs (snd (run scenario_conf (scenario T pa pb))))
     = [(Some (Keyword ''a''), Some (Keyword ''new'')),
        (Some (Keyword ''b''), Some (Keyword ''new''))]"
    by (simp add: scenario_run) (simp add: scenario_def scenario_doc_def)
  moreover have "fst (run scenario_conf (scenario T pa pb)) = Inr ()"
    by (simp add: scenario_run)
  moreover have "upd_query (update_query scenario_conf [Keyword ''a''])
     = [Terms_q ''properties.id'' [Keyword ''a'']]"
    by (simp add: update_query_def script_q_def query_q_def update_def UpdateByQuery_def
        scenario_conf_def)
  moreover have "fst (run scenario_conf ((scenario T pa pb)\<lparr>term_strict := True\<rparr>))
      = Inl QueryError"
    "published (new_events ((scenario T pa pb)\<lparr>term_strict := True\<rparr>)
       (snd (run scenario_conf ((scenario T pa pb)\<lparr>term_strict := True\<rparr>)))) = []"
    by (simp_all add: scenario_strict_run new_events_def) (simp add: scenario_def)
  ultimately show ?thesis
    by (simp add: scenario_def scenario_doc_def scenario_conf_def timedelta_def)
qed

subsection \<open>C3: the status reconciler marks the identifiers it is given\<close>

text \<open>
  C3 at an index whose first document has the identifier \<open>a\<close> and no \<open>properties\<close>: the
  selector reads \<open>a\<close> under \<open>ID_KEY\<close> and builds the message with the uri \<open>a\<close>; given
  that message, \<open>update_subs\<close> sends one bulk update, which matches on
  \<open>properties.ID_KEY\<close>, and the document is left new where the claim has it queued.
\<close>

theorem identifier_not_marked:
  "fst (get_messages scenario_conf ''lte'' 0 disagreeing)
     = Inr [(Keyword ''a'', message_a (Keyword ''p'')),
            (Keyword ''z'', \<lparr>uri = Keyword ''z'', description_path = Keyword ''q''\<rparr>)] \<and>
   map_of (docs disagreeing ! 0) (ID_KEY scenario_conf) = Some (uri (message_a (Keyword ''p''))) \<and>
   fst (update_subs scenario_conf [message_a (Keyword ''p'')] disagreeing) = Inr () \<and>
   new_events disagreeing (snd (update_subs scenario_conf [message_a (Keyword ''p'')] disagreeing))
     = [Updated (update_query scenario_conf [Keyword ''a''])] \<and>
   map_of (docs (snd (update_subs scenario_conf [message_a (Keyword ''p'')] disagreeing)) ! 0)
     ''status'' = Some (Keyword ''new'')"
  by (simp add: disagreeing_update disagreeing_selected new_events_def)
     (simp add: disagreeing_def scenario_conf_def message_a_def)

subsection \<open>C5: marking is idempotent\<close>

text \<open>
  C5: a second \<open>update_subs\<close> with the same messages, after one that succeeded, leaves
  every document as the first left it.
\<close>

theorem update_subs_idempotent:
  "fst (update_subs conf messages w) = Inr () \<longrightarrow>
     docs (snd (update_subs conf messages (snd (update_subs conf messages w))))
       = docs (snd (update_subs conf messages w))"
proof
  assume ok: "fst (update_subs conf messages w) = Inr ()"
  let ?w1 = "snd (update_subs conf messages w)"
  let ?u = "update_query conf (map uri messages)"
  have d1: "docs ?w1 = map (apply_update (rounds_up w) ?u) (docs w)"
    using ok by (rule update_subs_docs_ok)
  from update_subs_docs[of conf messages ?w1]
  show "docs (snd (update_subs conf messages ?w1)) = docs ?w1"
    by (auto simp: d1 apply_update_query_idem)
qed

theorem update_subs_idempotent_witness:
  "fst (update_subs scenario_conf [message_a (Keyword ''p'')] disagreeing) = Inr () \<and>
   map (\<lambda>d. map_of d ''status'') (docs disagreeing)
     = [Some (Keyword ''new''), Some (Keyword ''new'')] \<and>
   map (\<lambda>d. map_of d ''status'')
     (docs (snd (update_subs scenario_conf [message_a (Keyword ''p'')] disagreeing)))
     = [Some (Keyword ''new''), Some (Keyword ''queued'')] \<and>
   docs (snd (update_subs scenario_conf [message_a (Keyword ''p'')]
       (snd (update_subs scenario_conf [message_a (Keyword ''p'')] disagreeing))))
     = docs (snd (update_subs scenario_conf [message_a (Keyword ''p'')] disagreeing))"
proof -
  have h: "fst (update_subs scenario_conf [message_a (Keyword ''p'')] disagreeing) = Inr ()"
    by (simp add: disagreeing_update)
  have s: "map (\<lambda>d. map_of d ''status'') (docs disagreeing)
     = [Some (Keyword ''new''), Some (Keyword ''new'')]"
    "map (\<lambda>d. map_of d ''status'')
     (docs (snd (update_subs scenario_conf [message_a (Keyword ''p'')] disagreeing)))
     = [Some (Keyword ''new''), Some (Keyword ''queued'')]"
    by (simp_all add: disagreeing_update) (simp add: disagreeing_def)
  from update_subs_idempotent[of scenario_conf "[message_a (Keyword ''p'')]" disagreeing] h s
  show ?thesis by simp
qed

subsection \<open>C8: the frame of the bulk update\<close>

text \<open>
  C8 at an index whose second document has the identifier \<open>z\<close> and the property
  \<open>properties.id = a\<close>: the selector reads \<open>z\<close> as its identifier; given only the
  message with the uri \<open>a\<close>, \<open>update_subs\<close> matches on \<open>properties.ID_KEY\<close> and marks
  the document, where the claim has it unchanged.
\<close>

theorem other_identifier_marked:
  "fst (get_messages scenario_conf ''lte'' 0 disagreeing)
     = Inr [(Keyword ''a'', message_a (Keyword ''p'')),
            (Keyword ''z'', \<lparr>uri = Keyword ''z'', description_path = Keyword ''q''\<rparr>)] \<and>
   map_of (docs disagreeing ! 1) (ID_KEY scenario_conf) = Some (Keyword ''z'') \<and>
   Keyword ''z'' \<notin> uri ` set [message_a (Keyword ''p'')] \<and>
   map_of (docs disagreeing ! 1) ''status'' = Some (Keyword ''new'') \<and>
   fst (update_subs scenario_conf [message_a (Keyword ''p'')] disagreeing) = Inr () \<and>
   map_of (docs (snd (update_subs scenario_conf [message_a (Keyword ''p'')] disagreeing)) ! 1)
     ''status'' = Some (Keyword ''queued'')"
  by (simp add: disagreeing_update disagreeing_selected)
     (simp add: disagreeing_def scenario_conf_def message_a_def)

subsection \<open>C4: publishing comes before marking\<close>

text \<open>
  C4: in the calls one cycle makes, the bulk update, whether it succeeds (\<open>Updated\<close>) or
  raises, is the last call, and before it the producer was opened, handed every filtered
  message in order, and closed; when the cycle ends in the update's error, all filtered
  messages have been handed to the sink.
\<close>

theorem publish_before_mark:
  "run conf w = (r, w') \<and> new_events w w' = pre @ ev # post \<and>
   (ev = Updated u \<or> ev = Raised UpdateError) \<longrightarrow>
     post = [] \<and>
     (r = Inl UpdateError) = (ev = Raised UpdateError) \<and>
     (\<exists>old w1 young w2.
        get_messages conf ''lte'' (now w - timedelta (CUTOFF conf)) w = (Inr old, w1) \<and>
        get_messages conf ''gt'' (now w - timedelta (CUTOFF conf)) w1 = (Inr young, w2) \<and>
        pre = [Searched (selector_query conf ''lte'' (now w - timedelta (CUTOFF conf))),
               Searched (selector_query conf ''gt'' (now w - timedelta (CUTOFF conf))),
               Opened]
              @ map (Published (ROUTING_KEY conf)) (filter_messages old young) @ [Closed] \<and>
        published (new_events w w')
          = map (Pair (ROUTING_KEY conf)) (filter_messages old young) \<and>
        (ev = Updated u \<longrightarrow>
           u = update_query conf (map uri (filter_messages old young))))"
proof (intro impI)
  assume h: "run conf w = (r, w') \<and> new_events w w' = pre @ ev # post \<and>
   (ev = Updated u \<or> ev = Raised UpdateError)"
  then have run: "run conf w = (r, w')" and ne: "new_events w w' = pre @ ev # post"
    and ev: "ev = Updated u \<or> ev = Raised UpdateError" by auto
  let ?q1 = "Searched (selector_query conf ''lte'' (now w - timedelta (CUTOFF conf)))"
  let ?q2 = "Searched (selector_query conf ''gt'' (now w - timedelta (CUTOFF conf)))"
  from run show "post = [] \<and>
     (r = Inl UpdateError) = (ev = Raised UpdateError) \<and>
     (\<exists>old w1 young w2.
        get_messages conf ''lte'' (now w - timedelta (CUTOFF conf)) w = (Inr old, w1) \<and>
        get_messages conf ''gt'' (now w - timedelta (CUTOFF conf)) w1 = (Inr young, w2) \<and>
        pre = [?q1, ?q2, Opened]
              @ map (Published (ROUTING_KEY conf)) (filter_messages old young) @ [Closed] \<and>
        published (new_events w w')
          = map (Pair (ROUTING_KEY conf)) (filter_messages old young) \<and>
        (ev = Updated u \<longrightarrow>
           u = update_query conf (map uri (filter_messages old young))))"
  proof (cases rule: run_cases)
    case not_selected
    from ne have "ev \<in> set (new_events w w')" by simp
    with not_selected(2) ev show ?thesis by auto
  next
    case (selected old w1 young w2 tail)
    let ?ms = "filter_messages old young"
    let ?ys = "[?q1, ?q2, Opened] @ map (Published (ROUTING_KEY conf)) ?ms @ [Closed]"
    have in_ev: "ev \<in> set (new_events w w')" using ne by simp
    have notin: "ev \<notin> set ?ys" using ev by auto
    from selected(4) in_ev ev selected(3)
    consider (fail) "r = Inl UpdateError" "new_events w w' = ?ys @ [Raised UpdateError]"
      | (ok) "r = Inr ()" "new_events w w' = ?ys @ [Updated (update_query conf (map uri ?ms))]"
      by (auto dest: in_set_takeD)
    then show ?thesis
    proof cases
      case fail
      from split_at_last[OF ne[unfolded fail(2), symmetric] notin]
      have s: "pre = ?ys" "ev = Raised UpdateError" "post = []" by auto
      have "published (new_events w w') = map (Pair (ROUTING_KEY conf)) ?ms"
        by (simp add: fail(2) published_append published_map)
      with s fail(1) selected(1,2) show ?thesis by auto
    next
      case ok
      from split_at_last[OF ne[unfolded ok(2), symmetric] notin]
      have s: "pre = ?ys" "ev = Updated (update_query conf (map uri ?ms))" "post = []" by auto
      have "published (new_events w w') = map (Pair (ROUTING_KEY conf)) ?ms"
        by (simp add: ok(2) published_append published_map)
      with s ok(1) selected(1,2) show ?thesis by auto
    qed
  qed
qed

theorem publish_before_mark_witness:
  "run scenario_conf (faulty [False, False, True] [])
     = (Inl UpdateError, snd (run scenario_conf (faulty [False, False, True] []))) \<and>
   new_events (faulty [False, False, True] []) (snd (run scenario_conf (faulty [False, False, True] [])))
     = [Searched (selector_query scenario_conf ''lte'' (- 300000000)),
        Searched (selector_query scenario_conf ''gt'' (- 300000000)),
        Opened, Published ''stac'' (message_a (Keyword ''p'')), Closed]
       @ Raised UpdateError # [] \<and>
   (\<exists>old young.
      published (new_events (faulty [False, False, True] [])
          (snd (run scenario_conf (faulty [False, False, True] []))))
        = map (Pair (ROUTING_KEY scenario_conf)) (filter_messages old young) \<and>
      [(''stac'', message_a (Keyword ''p''))]
        = map (Pair (ROUTING_KEY scenario_conf)) (filter_messages old young))"
proof -
  let ?w = "faulty [False, False, True] []"
  have r: "run scenario_conf ?w = (Inl UpdateError, snd (run scenario_conf ?w))"
    by (simp add: faulty_update)
  have e: "new_events ?w (snd (run scenario_conf ?w))
     = [Searched (selector_query scenario_conf ''lte'' (- 300000000)),
        Searched (selector_query scenario_conf ''gt'' (- 300000000)),
        Opened, Published ''stac'' (message_a (Keyword ''p'')), Closed]
       @ Raised UpdateError # []"
    by (simp add: faulty_update new_events_def) (simp add: faulty_def scenario_def)
  have p: "published (new_events ?w (snd (run scenario_conf ?w)))
     = [(''stac'', message_a (Keyword ''p''))]"
    by (simp add: e)
  from publish_before_mark[of scenario_conf ?w "Inl UpdateError" "snd (run scenario_conf ?w)"
      "[Searched (selector_query scenario_conf ''lte'' (- 300000000)),
        Searched (selector_query scenario_conf ''gt'' (- 300000000)),
        Opened, Published ''stac'' (message_a (Keyword ''p'')), Closed]"
      "Raised UpdateError" "[]" "update_query scenario_conf []"] r e
  have "\<exists>old young. published (new_events ?w (snd (run scenario_conf ?w)))
          = map (Pair (ROUTING_KEY scenario_conf)) (filter_messages old young)"
    by blast
  then obtain old young where x: "published (new_events ?w (snd (run scenario_conf ?w)))
          = map (Pair (ROUTING_KEY scenario_conf)) (filter_messages old young)"
    by blast
  from x p have y: "[(''stac'', message_a (Keyword ''p''))]
        = map (Pair (ROUTING_KEY scenario_conf)) (filter_messages old young)"
    by simp
  show ?thesis
  proof (intro conjI)
    show "run scenario_conf ?w = (Inl UpdateError, snd (run scenario_conf ?w))" by (rule r)
    show "new_events ?w (snd (run scenario_conf ?w))
     = [Searched (selector_query scenario_conf ''lte'' (- 300000000)),
        Searched (selector_query scenario_conf ''gt'' (- 300000000)),
        Opened, Published ''stac'' (message_a (Keyword ''p'')), Closed]
       @ Raised UpdateError # []" by (rule e)
    show "\<exists>old young.
      published (new_events ?w (snd (run scenario_conf ?w)))
        = map (Pair (ROUTING_KEY scenario_conf)) (filter_messages old young) \<and>
      [(''stac'', message_a (Keyword ''p''))]
        = map (Pair (ROUTING_KEY scenario_conf)) (filter_messages old young)"
      by (rule exI[of _ old], rule exI[of _ young], rule conjI[OF x y])
  qed
qed

subsection \<open>C9: errors propagate\<close>

text \<open>
  C9: a call to a collaborator that fails is recorded as \<open>Raised\<close>, and returns the error
  in place of a result; whenever a query, a publish or the bulk update raises during a
  cycle, \<open>run\<close> returns that error and makes no further call but the closing of the
  producer it had opened; and whenever the query of \<open>get_messages\<close> raises,
  \<open>get_messages\<close> returns that error and no candidate map.
\<close>

theorem errors_propagate:
  "(run conf w = (r, w') \<and> new_events w w' = pre @ Raised e # post \<longrightarrow>
      r = Inl e \<and> (post = [] \<or> e = PublishError \<and> post = [Closed])) \<and>
   (get_messages conf operator cutoff w = (r1, w1) \<and> Raised e \<in> set (new_events w w1)
      \<longrightarrow> r1 = Inl e) \<and>
   (fst (execute q w) = Inl e) = (new_events w (snd (execute q w)) = [Raised e]) \<and>
   (fst (producer_enter w) = Inl e) = (new_events w (snd (producer_enter w)) = [Raised e]) \<and>
   (fst (producer_publish rk m w) = Inl e)
     = (new_events w (snd (producer_publish rk m w)) = [Raised e]) \<and>
   (fst (execute_update u w) = Inl e) = (new_events w (snd (execute_update u w)) = [Raised e])"
proof (intro conjI impI)
  assume "run conf w = (r, w') \<and> new_events w w' = pre @ Raised e # post"
  then have "r = Inl e \<and> (post = [] \<or> e = PublishError \<and> post = [Closed])"
    by (intro run_raised) auto
  then show "r = Inl e" and "post = [] \<or> e = PublishError \<and> post = [Closed]" by auto
next
  assume "get_messages conf operator cutoff w = (r1, w1) \<and> Raised e \<in> set (new_events w w1)"
  then show "r1 = Inl e"
    using get_messages_cases[of conf operator cutoff w r1 w1] by (auto simp: new_events_def)
next
  show "(fst (execute q w) = Inl e) = (new_events w (snd (execute q w)) = [Raised e])"
    by (auto simp: execute_def new_events_def emit_def Let_def)
next
  show "(fst (producer_enter w) = Inl e) = (new_events w (snd (producer_enter w)) = [Raised e])"
    by (auto simp: producer_enter_def new_events_def emit_def Let_def)
next
  show "(fst (producer_publish rk m w) = Inl e)
     = (new_events w (snd (producer_publish rk m w)) = [Raised e])"
    by (auto simp: producer_publish_def new_events_def emit_def Let_def)
next
  show "(fst (execute_update u w) = Inl e) = (new_events w (snd (execute_update u w)) = [Raised e])"
    by (auto simp: execute_update_def new_events_def emit_def Let_def)
qed

theorem errors_propagate_witness:
  "new_events (faulty [True] []) (snd (run scenario_conf (faulty [True] [])))
     = [] @ Raised QueryError # [] \<and>
   fst (run scenario_conf (faulty [True] [])) = Inl QueryError \<and>
   new_events (faulty [] [False, True]) (snd (run scenario_conf (faulty [] [False, True])))
     = [Searched (selector_query scenario_conf ''lte'' (- 300000000)),
        Searched (selector_query scenario_conf ''gt'' (- 300000000)), Opened]
       @ Raised PublishError # [Closed] \<and>
   fst (run scenario_conf (faulty [] [False, True])) = Inl PublishError \<and>
   new_events (faulty [False, False, True] [])
       (snd (run scenario_conf (faulty [False, False, True] [])))
     = [Searched (selector_query scenario_conf ''lte'' (- 300000000)),
        Searched (selector_query scenario_conf ''gt'' (- 300000000)), Opened,
        Published ''stac'' (message_a (Keyword ''p'')), Closed]
       @ Raised UpdateError # [] \<and>
   fst (run scenario_conf (faulty [False, False, True] [])) = Inl UpdateError \<and>
   Raised QueryError \<in> set (new_events (faulty [True] [])
      (snd (get_messages scenario_conf ''lte'' 0 (faulty [True] [])))) \<and>
   fst (get_messages scenario_conf ''lte'' 0 (faulty [True] [])) = Inl QueryError"
proof -
  have q: "new_events (faulty [True] []) (snd (run scenario_conf (faulty [True] [])))
     = [] @ Raised QueryError # []"
    by (simp add: faulty_query new_events_def) (simp add: faulty_def scenario_def)
  have p: "new_events (faulty [] [False, True]) (snd (run scenario_conf (faulty [] [False, True])))
     = [Searched (selector_query scenario_conf ''lte'' (- 300000000)),
        Searched (selector_query scenario_conf ''gt'' (- 300000000)), Opened]
       @ Raised PublishError # [Closed]"
    by (simp add: faulty_publish new_events_def) (simp add: faulty_def scenario_def)
  have u: "new_events (faulty [False, False, True] [])
       (snd (run scenario_conf (faulty [False, False, True] [])))
     = [Searched (selector_query scenario_conf ''lte'' (- 300000000)),
        Searched (selector_query scenario_conf ''gt'' (- 300000000)), Opened,
        Published ''stac'' (message_a (Keyword ''p'')), Closed]
       @ Raised UpdateError # []"
    by (simp add: faulty_update new_events_def) (simp add: faulty_def scenario_def)
  have g: "Raised QueryError \<in> set (new_events (faulty [True] [])
      (snd (get_messages scenario_conf ''lte'' 0 (faulty [True] []))))"
    by (simp add: eval_defs)
  note t = errors_propagate[THEN conjunct1, rule_format, OF conjI, OF surjective_pairing,
      THEN conjunct1]
  note t2 = errors_propagate[THEN conjunct2, THEN conjunct1, rule_format, OF conjI,
      OF surjective_pairing]
  from t[OF q] t[OF p] t[OF u] t2[OF g] q p u g show ?thesis by simp
qed

subsection \<open>C10: one cutoff, truncated to the second, for both queries\<close>

text \<open>
  C10, as stated, has every document modified within the cutoff's second, after the
  start of that second, on the \<open>gt\<close> side. The code sends the bound without its
  fraction, and the side is the index's to decide: on an index that rounds the missing
  fraction up for \<open>lte\<close> and \<open>gt\<close>, the document modified at 1.2 seconds, read at the
  cutoff of 1.5 seconds, is a hit of the \<open>lte\<close> query, not of the \<open>gt\<close> query, and is
  published in that cycle.
\<close>

theorem subsecond_rounded_counterexample:
  "rounds_up (subsecond\<lparr>rounds_up := True\<rparr>) \<and>
   now (subsecond\<lparr>rounds_up := True\<rparr>) - timedelta (CUTOFF scenario_conf) = 1500000 \<and>
   map_of (scenario_doc ''f'' (Keyword ''q'') 1200000) ''mod_time'' = Some (Date 1200000) \<and>
   strftime 1500000 * 1000000 < 1200000 \<and> 1200000 < (strftime 1500000 + 1) * 1000000 \<and>
   fst (execute (selector_query scenario_conf ''lte'' 1500000) (subsecond\<lparr>rounds_up := True\<rparr>))
     = Inr [scenario_doc ''e'' (Keyword ''p'') 1000000,
            scenario_doc ''f'' (Keyword ''q'') 1200000] \<and>
   fst (execute (selector_query scenario_conf ''gt'' 1500000) (subsecond\<lparr>rounds_up := True\<rparr>))
     = Inr [] \<and>
   published (new_events (subsecond\<lparr>rounds_up := True\<rparr>)
      (snd (run scenario_conf (subsecond\<lparr>rounds_up := True\<rparr>))))
     = [(''stac'', \<lparr>uri = Keyword ''e'', description_path = Keyword ''p''\<rparr>),
        (''stac'', \<lparr>uri = Keyword ''f'', description_path = Keyword ''q''\<rparr>)]"
  by (simp add: subsecond_rounded_hits subsecond_rounded_published)
     (simp add: subsecond_def scenario_conf_def scenario_doc_def timedelta_def strftime_def)

text \<open>
  C10 (amended): every search of a cycle is the selector query for \<open>lte\<close> or for \<open>gt\<close> at
  the one cutoff \<open>now - CUTOFF\<close>; both carry the cutoff printed to the second, the
  microseconds dropped; on one index no document matches both queries, so a hit of the
  first and a hit of the second never have the same \<open>mod_time\<close>; and the new documents
  modified within the cutoff's second, after its start, are on the \<open>gt\<close> side when the
  index reads the bound as the start of that second, and on the \<open>lte\<close> side when the
  index rounds the missing fraction up.
\<close>

theorem cutoff_partition:
  "(run conf w = (r, w') \<and> Searched q \<in> set (new_events w w') \<longrightarrow>
      q = selector_query conf ''lte'' (now w - timedelta (CUTOFF conf)) \<or>
      q = selector_query conf ''gt'' (now w - timedelta (CUTOFF conf))) \<and>
   req_filters (selector_query conf operator c)
     = req_filters (search conf) @ [Range_q ''mod_time'' operator (strftime c)] \<and>
   strftime c * 1000000 \<le> c \<and> c < (strftime c + 1) * 1000000 \<and>
   (rounds_up w1 = rounds_up w2 \<and>
    fst (execute (selector_query conf ''lte'' c) w1) = Inr hits1 \<and>
    fst (execute (selector_query conf ''gt'' c) w2) = Inr hits2 \<and>
    d1 \<in> set hits1 \<and> d2 \<in> set hits2 \<longrightarrow>
      map_of d1 ''mod_time'' \<noteq> map_of d2 ''mod_time'' \<and> d1 \<noteq> d2) \<and>
   (map_of d ''status'' = Some (Keyword ''new'') \<and> map_of d ''mod_time'' = Some (Date t) \<and>
    strftime c * 1000000 < t \<longrightarrow>
      matches False (req_filters (selector_query conf ''gt'' c)) d \<and>
      \<not> matches False (req_filters (selector_query conf ''lte'' c)) d) \<and>
   (map_of d ''status'' = Some (Keyword ''new'') \<and> map_of d ''mod_time'' = Some (Date t) \<and>
    t < (strftime c + 1) * 1000000 \<longrightarrow>
      matches True (req_filters (selector_query conf ''lte'' c)) d \<and>
      \<not> matches True (req_filters (selector_query conf ''gt'' c)) d)"
proof (intro conjI impI)
  assume h: "run conf w = (r, w') \<and> Searched q \<in> set (new_events w w')"
  then have run: "run conf w = (r, w')" and q: "Searched q \<in> set (new_events w w')" by auto
  from run show "q = selector_query conf ''lte'' (now w - timedelta (CUTOFF conf)) \<or>
      q = selector_query conf ''gt'' (now w - timedelta (CUTOFF conf))"
  proof (cases rule: run_cases)
    case not_selected
    with q show ?thesis by auto
  next
    case (selected old w1 young w2 tail)
    with q show ?thesis by (auto dest: in_set_takeD)
  qed
next
  show "req_filters (selector_query conf operator c)
     = req_filters (search conf) @ [Range_q ''mod_time'' operator (strftime c)]"
    by (simp add: selector_query_def filter_q_def)
next
  show "strftime c * 1000000 \<le> c" "c < (strftime c + 1) * 1000000"
    using second_floor[of c] by (simp_all add: strftime_def algebra_simps)
next
  assume h: "rounds_up w1 = rounds_up w2 \<and>
    fst (execute (selector_query conf ''lte'' c) w1) = Inr hits1 \<and>
    fst (execute (selector_query conf ''gt'' c) w2) = Inr hits2 \<and>
    d1 \<in> set hits1 \<and> d2 \<in> set hits2"
  then have "matches (rounds_up w1) (req_filters (selector_query conf ''lte'' c)) d1"
    "matches (rounds_up w2) (req_filters (selector_query conf ''gt'' c)) d2"
    by (auto dest: execute_hits)
  with h have m: "\<exists>t. map_of d1 ''mod_time'' = Some (Date t) \<and>
        t \<le> bound_instant (rounds_up w1) ''lte'' (strftime c)"
    "\<exists>t. map_of d2 ''mod_time'' = Some (Date t) \<and>
        bound_instant (rounds_up w1) ''gt'' (strftime c) < t"
    by (simp_all add: matches_selector range_lte range_gt del: clause_holds.simps)
  have "bound_instant (rounds_up w1) ''lte'' (strftime c)
      = bound_instant (rounds_up w1) ''gt'' (strftime c)"
    by (simp add: bound_instant_def)
  with m show "map_of d1 ''mod_time'' \<noteq> map_of d2 ''mod_time''" by auto
  then show "d1 \<noteq> d2" by auto
next
  assume h: "map_of d ''status'' = Some (Keyword ''new'') \<and> map_of d ''mod_time'' = Some (Date t) \<and>
    strftime c * 1000000 < t"
  then show "matches False (req_filters (selector_query conf ''gt'' c)) d"
    by (simp add: matches_selector range_gt bound_instant_floor del: clause_holds.simps)
  from h show "\<not> matches False (req_filters (selector_query conf ''lte'' c)) d"
    by (simp add: matches_selector range_lte bound_instant_floor del: clause_holds.simps)
next
  assume h: "map_of d ''status'' = Some (Keyword ''new'') \<and> map_of d ''mod_time'' = Some (Date t) \<and>
    t < (strftime c + 1) * 1000000"
  then show "matches True (req_filters (selector_query conf ''lte'' c)) d"
    by (simp add: matches_selector range_lte bound_instant_floor algebra_simps
        del: clause_holds.simps)
  from h show "\<not> matches True (req_filters (selector_query conf ''gt'' c)) d"
    by (simp add: matches_selector range_gt bound_instant_floor algebra_simps
        del: clause_holds.simps)
qed

theorem cutoff_partition_witness:
  "Searched (selector_query scenario_conf ''lte'' 1500000)
     \<in> set (new_events subsecond (snd (run scenario_conf subsecond))) \<and>
   now subsecond - timedelta (CUTOFF scenario_conf) = 1500000 \<and>
   strftime 1500000 = 1 \<and>
   fst (execute (selector_query scenario_conf ''lte'' 1500000) subsecond)
     = Inr [scenario_doc ''e'' (Keyword ''p'') 1000000] \<and>
   fst (execute (selector_query scenario_conf ''gt'' 1500000) subsecond)
     = Inr [scenario_doc ''f'' (Keyword ''q'') 1200000] \<and>
   map_of (scenario_doc ''f'' (Keyword ''q'') 1200000) ''mod_time'' = Some (Date 1200000) \<and>
   map_of (scenario_doc ''e'' (Keyword ''p'') 1000000) ''mod_time''
     \<noteq> map_of (scenario_doc ''f'' (Keyword ''q'') 1200000) ''mod_time'' \<and>
   matches False (req_filters (selector_query scenario_conf ''gt'' 1500000))
     (scenario_doc ''f'' (Keyword ''q'') 1200000) \<and>
   \<not> matches False (req_filters (selector_query scenario_conf ''lte'' 1500000))
     (scenario_doc ''f'' (Keyword ''q'') 1200000) \<and>
   matches True (req_filters (selector_query scenario_conf ''lte'' 1500000))
     (scenario_doc ''f'' (Keyword ''q'') 1200000) \<and>
   \<not> matches True (req_filters (selector_query scenario_conf ''gt'' 1500000))
     (scenario_doc ''f'' (Keyword ''q'') 1200000)"
proof -
  let ?e = "scenario_doc ''e'' (Keyword ''p'') 1000000"
  let ?f = "scenario_doc ''f'' (Keyword ''q'') 1200000"
  have s: "Searched (selector_query scenario_conf ''lte'' 1500000)
     \<in> set (new_events subsecond (snd (run scenario_conf subsecond)))"
    by (simp add: subsecond_run new_events_def) (simp add: subsecond_def)
  have c: "now subsecond - timedelta (CUTOFF scenario_conf) = 1500000" "strftime 1500000 = 1"
    by (simp_all add: subsecond_def scenario_conf_def timedelta_def strftime_def)
  have d: "map_of ?f ''status'' = Some (Keyword ''new'')"
    "map_of ?f ''mod_time'' = Some (Date 1200000)" "strftime 1500000 * 1000000 < 1200000"
    "1200000 < (strftime 1500000 + 1) * 1000000"
    "?e \<in> set [?e]" "?f \<in> set [?f]" "rounds_up subsecond = rounds_up subsecond"
    by (simp_all add: scenario_doc_def strftime_def)
  note t = cutoff_partition[where conf = scenario_conf and w = subsecond
      and r = "fst (run scenario_conf subsecond)" and w' = "snd (run scenario_conf subsecond)"
      and q = "selector_query scenario_conf ''lte'' 1500000" and operator = "''lte''"
      and c = 1500000 and ?w1.0 = subsecond and ?hits1.0 = "[?e]" and ?w2.0 = subsecond
      and ?hits2.0 = "[?f]" and ?d1.0 = ?e and ?d2.0 = ?f and d = ?f and t = 1200000]
  note t5 = t[THEN conjunct2, THEN conjunct2, THEN conjunct2, THEN conjunct2, THEN conjunct1]
  note t6 = t[THEN conjunct2, THEN conjunct2, THEN conjunct2, THEN conjunct2, THEN conjunct2,
      THEN conjunct1]
  note t7 = t[THEN conjunct2, THEN conjunct2, THEN conjunct2, THEN conjunct2, THEN conjunct2,
      THEN conjunct2]
  from t5 t6 t7 s c d subsecond_hits show ?thesis by simp
qed

subsection \<open>C6: the selector's request\<close>

text \<open>
  C6 at an index of eleven matching documents: the request carries \<open>size = 10000\<close> as a
  second keyword of the term clause and names no page size of its own; every document
  matches, and the selector receives the index's page of ten; an index that rejects the
  two-field term clause raises instead. (On every index the candidates number at most the
  default page, \<open>get_messages_page\<close>; the status filter itself holds,
  \<open>selector_status_gating\<close>.)
\<close>

theorem page_size_not_requested:
  "req_size (selector_query scenario_conf ''lte'' 0) = None \<and>
   req_filters (selector_query scenario_conf ''lte'' 0)
     = [Term_q [(''status'', Keyword ''new''), (''size'', Number 10000)],
        Range_q ''mod_time'' ''lte'' 0] \<and>
   length (filter (matches (rounds_up crowded)
                    (req_filters (selector_query scenario_conf ''lte'' 0)))
            (docs crowded)) = 11 \<and>
   map_sum id length (fst (get_messages scenario_conf ''lte'' 0 crowded)) = Inr 10 \<and>
   fst (get_messages scenario_conf ''lte'' 0 (crowded\<lparr>term_strict := True\<rparr>))
     = Inl QueryError"
  by (simp add: crowded_strict) (simp add: eval_defs crowded_def)

subsection \<open>C7: duplicate hits\<close>

text \<open>
  C7, as stated, keeps the message of the later hit. The guard
  \<open>if sur_id not in messages\<close> keeps the first: of two hits for \<open>a\<close>, with paths
  \<open>p1\<close> and then \<open>p2\<close>, the map holds \<open>p1\<close>.
\<close>

theorem last_seen_wins_counterexample:
  "fst (execute (selector_query scenario_conf ''lte'' 1000000) duplicates) =
     Inr [[(''id'', Keyword ''a''), (''description_path'', Keyword ''p1''),
           (''status'', Keyword ''new''), (''mod_time'', Date 0)],
          [(''id'', Keyword ''a''), (''description_path'', Keyword ''p2''),
           (''status'', Keyword ''new''), (''mod_time'', Date 1)]] \<and>
   fst (get_messages scenario_conf ''lte'' 1000000 duplicates) =
     Inr [(Keyword ''a'', \<lparr>uri = Keyword ''a'', description_path = Keyword ''p1''\<rparr>)]"
  by (simp add: get_messages_def duplicates_hits) (simp add: duplicates_def scenario_conf_def)

text \<open>
  C7 (amended): when a query returns several hits for one identifier, the candidate map
  holds that identifier exactly once, and its message is built from the first of these
  hits: a later hit for an identifier already in the map is skipped.
\<close>

theorem first_seen_wins:
  "fst (execute (selector_query conf operator cutoff) w) = Inr hits \<and>
   fst (get_messages conf operator cutoff w) = Inr messages \<longrightarrow>
     distinct (map fst messages) \<and>
     (k \<in> fst ` set messages \<longleftrightarrow> (\<exists>hit \<in> set hits. map_of hit (ID_KEY conf) = Some k)) \<and>
     (first_hit conf hits k = Some hit \<longrightarrow>
        (\<exists>p. map_of hit ''description_path'' = Some p \<and>
             map_of messages k = Some \<lparr>uri = k, description_path = p\<rparr>))"
proof (intro impI)
  assume h: "fst (execute (selector_query conf operator cutoff) w) = Inr hits \<and>
   fst (get_messages conf operator cutoff w) = Inr messages"
  with execute_get_messages have l: "get_messages_loop conf hits [] = Inr messages" by metis
  have e: "keyed []" by (simp add: keyed_def)
  from get_messages_loop_first[OF l e, of k] have k: "keyed messages"
    and m: "map_of messages k = (case first_hit conf hits k of
               None \<Rightarrow> None
             | Some hit \<Rightarrow> map_option (\<lambda>p. \<lparr>uri = k, description_path = p\<rparr>)
                             (map_of hit ''description_path''))" by auto
  have d: "distinct (map fst messages)" using k by (simp add: keyed_def)
  have p: "\<exists>p. map_of hit ''description_path'' = Some p \<and>
             map_of messages k = Some \<lparr>uri = k, description_path = p\<rparr>"
    if f: "first_hit conf hits k = Some hit" for hit
    using get_messages_loop_path[OF l _ f] m f by auto
  have "k \<in> fst ` set messages \<longleftrightarrow> map_of messages k \<noteq> None"
    by (simp add: map_of_eq_None_iff)
  also have "\<dots> \<longleftrightarrow> first_hit conf hits k \<noteq> None"
    using m p by (cases "first_hit conf hits k") auto
  also have "\<dots> \<longleftrightarrow> (\<exists>hit \<in> set hits. map_of hit (ID_KEY conf) = Some k)"
    by (simp add: first_hit_None)
  finally show "distinct (map fst messages) \<and>
     (k \<in> fst ` set messages \<longleftrightarrow> (\<exists>hit \<in> set hits. map_of hit (ID_KEY conf) = Some k)) \<and>
     (first_hit conf hits k = Some hit \<longrightarrow>
        (\<exists>p. map_of hit ''description_path'' = Some p \<and>
             map_of messages k = Some \<lparr>uri = k, description_path = p\<rparr>))"
    using d p by blast
qed

theorem first_seen_wins_witness:
  "fst (execute (selector_query scenario_conf ''lte'' 1000000) duplicates) = Inr (docs duplicates) \<and>
   first_hit scenario_conf (docs duplicates) (Keyword ''a'') = Some (hd (docs duplicates)) \<and>
   map_of (hd (docs duplicates)) ''description_path'' = Some (Keyword ''p1'') \<and>
   (\<exists>messages. fst (get_messages scenario_conf ''lte'' 1000000 duplicates) = Inr messages \<and>
      distinct (map fst messages) \<and>
      map_of messages (Keyword ''a'') = Some \<lparr>uri = Keyword ''a'', description_path = Keyword ''p1''\<rparr>)"
proof -
  have e: "fst (execute (selector_query scenario_conf ''lte'' 1000000) duplicates) = Inr (docs duplicates)"
    by (simp add: duplicates_hits)
  have f: "first_hit scenario_conf (docs duplicates) (Keyword ''a'') = Some (hd (docs duplicates))"
    by (simp add: first_hit_def duplicates_def scenario_conf_def)
  have p: "map_of (hd (docs duplicates)) ''description_path'' = Some (Keyword ''p1'')"
    by (simp add: duplicates_def)
  have g: "fst (get_messages scenario_conf ''lte'' 1000000 duplicates) =
     Inr [(Keyword ''a'', \<lparr>uri = Keyword ''a'', description_path = Keyword ''p1''\<rparr>)]"
    by (simp add: get_messages_def duplicates_hits) (simp add: duplicates_def scenario_conf_def)
  from first_seen_wins[of scenario_conf "''lte''" 1000000 duplicates "docs duplicates"
      "[(Keyword ''a'', \<lparr>uri = Keyword ''a'', description_path = Keyword ''p1''\<rparr>)]"
      "Keyword ''a''" "hd (docs duplicates)"] e f p g
  show ?thesis by auto
qed

end
